theory Spec2Isabelle
  imports
    Main
    "HOL-Library.Word"
    "HOL-Library.Multiset"
    "HOL-Library.Char_ord"
    "HOL-Library.List_Lexorder"
begin

section \<open>Python values, errors and strings\<close>

text \<open>
  The model follows \<^verbatim>\<open>src/analyze.py\<close>, class \<^verbatim>\<open>PoolEntries\<close>. Every exception
  the code raises, or that a pandas call in it raises, is a value of \<open>py_error\<close>; a
  method returns \<open>py_error + 'a\<close> together with the state it leaves behind.
  \<open>Unmodelled\<close> is no Python exception: it marks an input on which pandas would go on
  with a conversion this model does not follow (missing values, a column whose dtype
  changes, floating-point arithmetic).
\<close>

datatype py_error =
    Exception string
  | KeyError string
  | ValueError string
  | TypeError string
  | AttributeError string
  | IndexError string
  | Unmodelled string

text \<open>\<^verbatim>\<open>s.startswith(p)\<close> and \<^verbatim>\<open>s.endswith(p)\<close> on strings and on bytes.\<close>

definition startswith :: "'a list \<Rightarrow> 'a list \<Rightarrow> bool" where
  "startswith s p = (take (length p) s = p)"

definition endswith :: "'a list \<Rightarrow> 'a list \<Rightarrow> bool" where
  "endswith s p = (length p \<le> length s \<and> drop (length s - length p) s = p)"

section \<open>Encoding detection: \<^verbatim>\<open>GetEncoding\<close> (lines 27-56)\<close>

type_synonym byte = "8 word"

text \<open>
  The byte-order marks of Python's \<^verbatim>\<open>codecs\<close> module. \<^verbatim>\<open>codecs.BOM_UTF16\<close> is the mark
  of the platform's own byte order (\<^verbatim>\<open>sys.byteorder\<close>), so the platform is a parameter.
\<close>

datatype byteorder = Little | Big

definition BOM_UTF8 :: "byte list" where
  "BOM_UTF8 = [0xEF, 0xBB, 0xBF]"

definition BOM_UTF16_LE :: "byte list" where
  "BOM_UTF16_LE = [0xFF, 0xFE]"

definition BOM_UTF16_BE :: "byte list" where
  "BOM_UTF16_BE = [0xFE, 0xFF]"

definition BOM_UTF32_LE :: "byte list" where
  "BOM_UTF32_LE = [0xFF, 0xFE, 0x00, 0x00]"

definition BOM_UTF32_BE :: "byte list" where
  "BOM_UTF32_BE = [0x00, 0x00, 0xFE, 0xFF]"

definition BOM_UTF16 :: "byteorder \<Rightarrow> byte list" where
  "BOM_UTF16 bo = (case bo of Little \<Rightarrow> BOM_UTF16_LE | Big \<Rightarrow> BOM_UTF16_BE)"

text \<open>The table \<^verbatim>\<open>BOMS\<close> of lines 44-51, in the order of the source.\<close>

definition BOMS :: "byteorder \<Rightarrow> (byte list \<times> string) list" where
  "BOMS bo =
    [(BOM_UTF8, ''utf-8''),
     (BOM_UTF16 bo, ''utf-16''),
     (BOM_UTF32_BE, ''utf-32be''),
     (BOM_UTF32_LE, ''utf-32le''),
     (BOM_UTF16_BE, ''utf-16be''),
     (BOM_UTF16_LE, ''utf-16le'')]"

text \<open>
  \<^verbatim>\<open>GetEncoding\<close> reads at most 64 bytes and returns the encoding of the first entry of
  \<^verbatim>\<open>BOMS\<close> whose mark the bytes start with; the \<^verbatim>\<open>[0]\<close> of an empty list raises, and
  the \<^verbatim>\<open>except\<close> branch returns \<^verbatim>\<open>"utf-8"\<close>. The argument is the content of the file.
\<close>

definition GetEncoding :: "byteorder \<Rightarrow> byte list \<Rightarrow> string" where
  "GetEncoding bo file =
    (let fbytes = take 64 file in
     case [encoding. (bom, encoding) \<leftarrow> BOMS bo, startswith fbytes bom] of
       [] \<Rightarrow> ''utf-8''
     | encoding # _ \<Rightarrow> encoding)"

section \<open>Data frames\<close>

text \<open>
  A pandas \<^verbatim>\<open>DataFrame\<close> is an ordered list of named, typed columns. A numeric or
  datetime column is an array of 64-bit items: \<^verbatim>\<open>int64\<close> in two's complement (its
  arithmetic wraps around), \<^verbatim>\<open>uint64\<close>, \<^verbatim>\<open>float64\<close> as its bit pattern,
  \<^verbatim>\<open>datetime64[ns]\<close> as signed nanoseconds since the epoch. A text column has dtype
  \<^verbatim>\<open>object\<close>. These are the dtypes \<^verbatim>\<open>add_csv_file\<close> produces; missing values (NaN, NaT)
  are outside the model. The row labels are positions \<open>0, 1, ...\<close> (the \<^verbatim>\<open>RangeIndex\<close>
  of \<^verbatim>\<open>read_csv\<close>).
\<close>

type_synonym int64 = "64 word"

datatype numtype = Int64 | UInt64 | Float64 | Datetime64

datatype column = NumCol numtype "int64 list" | ObjCol "string list"

datatype cell = NumV numtype int64 | StrV string

type_synonym frame = "(string \<times> column) list"

text \<open>A row taken out of a frame (\<^verbatim>\<open>df.loc[0]\<close>) is a \<^verbatim>\<open>Series\<close> indexed by column name.\<close>

type_synonym series = "(string \<times> cell) list"

text \<open>\<^verbatim>\<open>str(dtype)\<close>, on which the source dispatches.\<close>

fun dtype_str :: "column \<Rightarrow> string" where
  "dtype_str (NumCol Int64 xs) = ''int64''"
| "dtype_str (NumCol UInt64 xs) = ''uint64''"
| "dtype_str (NumCol Float64 xs) = ''float64''"
| "dtype_str (NumCol Datetime64 xs) = ''datetime64[ns]''"
| "dtype_str (ObjCol xs) = ''object''"

fun col_len :: "column \<Rightarrow> nat" where
  "col_len (NumCol t xs) = length xs"
| "col_len (ObjCol xs) = length xs"

text \<open>The value at position \<open>i\<close> of a column, for \<open>i\<close> below its length.\<close>

fun col_cell :: "column \<Rightarrow> nat \<Rightarrow> cell" where
  "col_cell (NumCol t xs) i = NumV t (xs ! i)"
| "col_cell (ObjCol xs) i = StrV (xs ! i)"

text \<open>\<^verbatim>\<open>take(indexer)\<close>: the rows at the positions of the indexer, in its order.\<close>

fun col_take :: "nat list \<Rightarrow> column \<Rightarrow> column" where
  "col_take idx (NumCol t xs) = NumCol t (map ((!) xs) idx)"
| "col_take idx (ObjCol xs) = ObjCol (map ((!) xs) idx)"

definition columns :: "frame \<Rightarrow> string list" where
  "columns df = map fst df"

definition nrows :: "frame \<Rightarrow> nat" where
  "nrows df = (case df of [] \<Rightarrow> 0 | (n, c) # rest \<Rightarrow> col_len c)"

text \<open>What pandas guarantees of every frame: column names are distinct here (a CSV
  header with a repeated name is renamed by \<^verbatim>\<open>read_csv\<close>), and all columns are as long
  as the frame.\<close>

definition wf_frame :: "frame \<Rightarrow> bool" where
  "wf_frame df = (distinct (columns df) \<and> list_all (\<lambda>(n, c). col_len c = nrows df) df)"

definition take_rows :: "frame \<Rightarrow> nat list \<Rightarrow> frame" where
  "take_rows df idx = map (\<lambda>(n, c). (n, col_take idx c)) df"

text \<open>\<^verbatim>\<open>df[name]\<close> raises \<^verbatim>\<open>KeyError\<close> on a name that is no column.\<close>

definition df_get :: "frame \<Rightarrow> string \<Rightarrow> py_error + column" where
  "df_get df name = (case map_of df name of None \<Rightarrow> Inl (KeyError name) | Some c \<Rightarrow> Inr c)"

text \<open>\<^verbatim>\<open>d[k] = v\<close> on a frame or a series: an existing key keeps its place, a new key
  goes last.\<close>

definition assign :: "(string \<times> 'v) list \<Rightarrow> string \<Rightarrow> 'v \<Rightarrow> (string \<times> 'v) list" where
  "assign d k v =
    (if k \<in> set (map fst d) then map (\<lambda>(n, x). if n = k then (n, v) else (n, x)) d
     else d @ [(k, v)])"

section \<open>Normalization: \<^verbatim>\<open>add_totals_row\<close> (lines 90-119)\<close>

text \<open>Line 112: \<^verbatim>\<open>{i: str(df.dtypes[i]) for i in df.columns}\<close>.\<close>

definition column_types :: "frame \<Rightarrow> (string \<times> string) list" where
  "column_types df = map (\<lambda>(i, c). (i, dtype_str c)) df"

text \<open>Line 113: \<^verbatim>\<open>df.loc[0]\<close> raises \<^verbatim>\<open>KeyError\<close> when the frame has no row labelled 0.\<close>

definition loc0 :: "frame \<Rightarrow> py_error + series" where
  "loc0 df =
    (if nrows df = 0 then Inl (KeyError ''0'')
     else Inr (map (\<lambda>(n, c). (n, col_cell c 0)) df))"

text \<open>Line 117: \<^verbatim>\<open>df[colname].sum()\<close>. The loop calls it on \<^verbatim>\<open>int\<close>-dtype columns only;
  numpy adds \<^verbatim>\<open>int64\<close> items modulo \<open>2^64\<close>.\<close>

fun series_sum :: "column \<Rightarrow> py_error + cell" where
  "series_sum (NumCol Int64 xs) = Inr (NumV Int64 (sum_list xs))"
| "series_sum (NumCol UInt64 xs) = Inr (NumV UInt64 (sum_list xs))"
| "series_sum (NumCol Float64 xs) = Inl (Unmodelled ''sum of a float64 column'')"
| "series_sum (NumCol Datetime64 xs) = Inl (TypeError ''datetime64 type does not support sum operations'')"
| "series_sum (ObjCol xs) = Inl (Unmodelled ''sum of an object column'')"

text \<open>Lines 115-117: the loop over \<^verbatim>\<open>column_types.items()\<close>.\<close>

fun totals_loop :: "frame \<Rightarrow> (string \<times> string) list \<Rightarrow> series \<Rightarrow> py_error + series" where
  "totals_loop df [] total_row_series = Inr total_row_series"
| "totals_loop df ((colname, coltype) # rest) total_row_series =
    (if startswith coltype ''int'' then
       (case df_get df colname of
          Inl e \<Rightarrow> Inl e
        | Inr c \<Rightarrow>
            (case series_sum c of
               Inl e \<Rightarrow> Inl e
             | Inr v \<Rightarrow> totals_loop df rest (assign total_row_series colname v)))
     else totals_loop df rest total_row_series)"

text \<open>
  Line 118: \<^verbatim>\<open>df.append(total_row_series, ignore_index=True)\<close>. pandas turns the series
  into a one-row frame with inferred dtypes and concatenates. A value of the column's
  own dtype extends the column. Any other value would change the column's dtype, and a
  key that is no column of the frame would add a column filled with NaN: both are
  \<open>Unmodelled\<close>.
\<close>

fun append_cell :: "column \<Rightarrow> cell \<Rightarrow> py_error + column" where
  "append_cell (NumCol t xs) (NumV t' v) =
    (if t = t' then Inr (NumCol t (xs @ [v]))
     else Inl (Unmodelled ''append changes the dtype of a column''))"
| "append_cell (ObjCol xs) (StrV s) = Inr (ObjCol (xs @ [s]))"
| "append_cell (NumCol t xs) (StrV s) = Inl (Unmodelled ''append changes the dtype of a column'')"
| "append_cell (ObjCol xs) (NumV t v) = Inl (Unmodelled ''append of a number to an object column'')"

fun append_cols :: "frame \<Rightarrow> series \<Rightarrow> py_error + frame" where
  "append_cols [] s = Inr []"
| "append_cols ((n, c) # df) s =
    (case map_of s n of
       None \<Rightarrow> Inl (Unmodelled ''append of a row without a value for a column'')
     | Some v \<Rightarrow>
         (case append_cell c v of
            Inl e \<Rightarrow> Inl e
          | Inr c' \<Rightarrow>
              (case append_cols df s of
                 Inl e \<Rightarrow> Inl e
               | Inr df' \<Rightarrow> Inr ((n, c') # df'))))"

definition append_row :: "frame \<Rightarrow> series \<Rightarrow> py_error + frame" where
  "append_row df s =
    (if set (map fst s) \<subseteq> set (columns df) then append_cols df s
     else Inl (Unmodelled ''append of a row with a key that is no column''))"

definition add_totals_row :: "frame \<Rightarrow> py_error + frame" where
  "add_totals_row df =
    (case loc0 df of
       Inl e \<Rightarrow> Inl e
     | Inr total_row_series \<Rightarrow>
         (case totals_loop df (column_types df)
                 (assign total_row_series ''Tag'' (StrV ''TOTAL'')) of
            Inl e \<Rightarrow> Inl e
          | Inr total_row_series' \<Rightarrow> append_row df total_row_series'))"

section \<open>Sorting: \<^verbatim>\<open>sort_values\<close>\<close>

text \<open>
  \<^verbatim>\<open>sort_values\<close> on one column computes an indexer with \<^verbatim>\<open>nargsort\<close> and takes the rows
  in its order. The source never passes \<^verbatim>\<open>kind\<close>, so the indexer is numpy's \<^verbatim>\<open>argsort\<close>
  with pandas' default \<^verbatim>\<open>kind='quicksort'\<close>. That algorithm is numpy's and not this
  repository's: it is the parameter \<open>qs\<close> of the model, from the keys to the positions in
  sorted order. \<open>argsort_ok\<close> is what numpy documents of it: the result is a permutation
  of the positions along which the keys ascend. It does not say where equal keys go:
  pandas documents \<^verbatim>\<open>mergesort\<close> and \<^verbatim>\<open>stable\<close> as the only stable kinds.
\<close>

type_synonym argsort = "int list \<Rightarrow> nat list"

definition argsort_ok :: "argsort \<Rightarrow> bool" where
  "argsort_ok qs =
    (\<forall>ks. mset (qs ks) = mset [0..<length ks] \<and> sorted (map ((!) ks) (qs ks)))"

text \<open>Two sorts that meet \<open>argsort_ok\<close>: a stable one (\<^verbatim>\<open>kind='stable'\<close>), and one that
  leaves equal keys in the reverse of their input order.\<close>

definition stable_argsort :: argsort where
  "stable_argsort ks = sort_key ((!) ks) [0..<length ks]"


text \<open>
  \<^verbatim>\<open>nargsort(items, kind, ascending)\<close> without missing values. For a descending sort
  pandas reverses the keys, sorts ascending, maps the result back to the positions
  before the reversal and reverses it.
\<close>

definition nargsort :: "argsort \<Rightarrow> bool \<Rightarrow> int list \<Rightarrow> nat list" where
  "nargsort qs ascending ks =
    (if ascending then qs ks
     else rev (map (\<lambda>j. length ks - 1 - j) (qs (rev ks))))"

text \<open>The keys of a column as integers: signed for \<^verbatim>\<open>int64\<close> and \<^verbatim>\<open>datetime64[ns]\<close>.\<close>

fun sort_keys :: "column \<Rightarrow> py_error + int list" where
  "sort_keys (NumCol Int64 xs) = Inr (map sint xs)"
| "sort_keys (NumCol Datetime64 xs) = Inr (map sint xs)"
| "sort_keys (NumCol UInt64 xs) = Inr (map uint xs)"
| "sort_keys (NumCol Float64 xs) = Inl (Unmodelled ''order of a float64 column'')"
| "sort_keys (ObjCol xs) = Inl (Unmodelled ''order of an object column'')"

text \<open>\<^verbatim>\<open>df.sort_values(by, ascending=..., ignore_index=True)\<close>; \<^verbatim>\<open>by=None\<close> is no column.\<close>

definition sort_values :: "argsort \<Rightarrow> frame \<Rightarrow> string option \<Rightarrow> bool \<Rightarrow> py_error + frame" where
  "sort_values qs df by ascending =
    (case by of
       None \<Rightarrow> Inl (KeyError ''None'')
     | Some b \<Rightarrow>
         (case df_get df b of
            Inl e \<Rightarrow> Inl e
          | Inr k \<Rightarrow>
              (case sort_keys k of
                 Inl e \<Rightarrow> Inl e
               | Inr ks \<Rightarrow> Inr (take_rows df (nargsort qs ascending ks)))))"

section \<open>Consolidation: \<^verbatim>\<open>digest\<close> (lines 123-161)\<close>

text \<open>The object: the fields \<^verbatim>\<open>__init__\<close> sets (lines 20-23). \<open>None\<close> is Python's
  \<^verbatim>\<open>None\<close>.\<close>

record PoolEntries =
  individual_data_frames :: "frame list option"
  pool_entries :: "frame option"
  digest_called :: bool

definition init :: PoolEntries where
  "init = \<lparr>individual_data_frames = Some [], pool_entries = None, digest_called = False\<rparr>"

text \<open>
  \<^verbatim>\<open>add_csv_file\<close> (lines 60-86). Reading and parsing the file (lines 75-85) is pandas'
  work; the argument is the table it yields. Line 86 appends it to the buffer, which is
  \<^verbatim>\<open>None\<close> once \<^verbatim>\<open>digest\<close> has released it.
\<close>

definition add_csv_file :: "PoolEntries \<Rightarrow> frame \<Rightarrow> (py_error + unit) \<times> PoolEntries" where
  "add_csv_file self df =
    (case individual_data_frames self of
       None \<Rightarrow> (Inl (AttributeError ''NoneType object has no attribute append''), self)
     | Some dfs \<Rightarrow> (Inr (), self\<lparr>individual_data_frames := Some (dfs @ [df])\<rparr>))"

text \<open>Lines 138-141: the loop that normalizes every buffered table, in order.\<close>

fun totals_all :: "frame list \<Rightarrow> py_error + frame list" where
  "totals_all [] = Inr []"
| "totals_all (df # dfs) =
    (case add_totals_row df of
       Inl e \<Rightarrow> Inl e
     | Inr df' \<Rightarrow>
         (case totals_all dfs of
            Inl e \<Rightarrow> Inl e
          | Inr all_dfs \<Rightarrow> Inr (df' # all_dfs)))"

text \<open>
  Line 142: \<^verbatim>\<open>pd.concat(all_dfs)\<close> raises \<^verbatim>\<open>ValueError\<close> on an empty list. Tables with
  the same columns, in the same order and of the same dtypes, are put one after the
  other. For tables that differ pandas fills in NaN and converts: \<open>Unmodelled\<close>.
\<close>

fun col_concat :: "column \<Rightarrow> column \<Rightarrow> py_error + column" where
  "col_concat (NumCol t xs) (NumCol t' ys) =
    (if t = t' then Inr (NumCol t (xs @ ys))
     else Inl (Unmodelled ''concat of columns of different dtypes''))"
| "col_concat (ObjCol xs) (ObjCol ys) = Inr (ObjCol (xs @ ys))"
| "col_concat (NumCol t xs) (ObjCol ys) = Inl (Unmodelled ''concat of columns of different dtypes'')"
| "col_concat (ObjCol xs) (NumCol t ys) = Inl (Unmodelled ''concat of columns of different dtypes'')"

fun concat2 :: "frame \<Rightarrow> frame \<Rightarrow> py_error + frame" where
  "concat2 [] [] = Inr []"
| "concat2 ((n, c) # a) ((m, d) # b) =
    (if n \<noteq> m then Inl (Unmodelled ''concat of tables with different columns'')
     else
       (case col_concat c d of
          Inl e \<Rightarrow> Inl e
        | Inr cd \<Rightarrow>
            (case concat2 a b of
               Inl e \<Rightarrow> Inl e
             | Inr ab \<Rightarrow> Inr ((n, cd) # ab))))"
| "concat2 [] (x # b) = Inl (Unmodelled ''concat of tables with different columns'')"
| "concat2 (x # a) [] = Inl (Unmodelled ''concat of tables with different columns'')"

fun concat_frames :: "frame list \<Rightarrow> py_error + frame" where
  "concat_frames [] = Inl (ValueError ''No objects to concatenate'')"
| "concat_frames [df] = Inr df"
| "concat_frames (df # df' # dfs) =
    (case concat_frames (df' # dfs) of
       Inl e \<Rightarrow> Inl e
     | Inr rest \<Rightarrow> concat2 df rest)"

text \<open>
  Lines 148-151: the name of the last column whose dtype starts with \<^verbatim>\<open>datetime\<close>, or
  \<^verbatim>\<open>None\<close>. The source walks \<^verbatim>\<open>df.columns\<close> of the last normalized table and looks the
  dtypes up in the pool; \<open>concat_frames\<close> returns a pool only when every table has the
  pool's columns, so these are the pool's own column types.
\<close>

definition find_date_col :: "(string \<times> string) list \<Rightarrow> string option" where
  "find_date_col col_types =
    fold (\<lambda>(colname, coltype) date_col_name.
            if startswith coltype ''datetime'' then Some colname else date_col_name)
         col_types None"

definition sort_by_timestamp :: "argsort \<Rightarrow> frame \<Rightarrow> py_error + frame" where
  "sort_by_timestamp qs pool = sort_values qs pool (find_date_col (column_types pool)) True"

text \<open>
  Lines 159-160: \<^verbatim>\<open>pool['PagedDiff'] + pool['NonPagedDiff']\<close>, element by element, stored
  as column \<^verbatim>\<open>TotalDiff\<close>. Two \<^verbatim>\<open>int64\<close> columns add modulo \<open>2^64\<close>; pandas refuses to
  add two datetime columns.
\<close>

fun series_add :: "column \<Rightarrow> column \<Rightarrow> py_error + column" where
  "series_add (NumCol Int64 xs) (NumCol Int64 ys) = Inr (NumCol Int64 (map2 (+) xs ys))"
| "series_add (NumCol Datetime64 xs) (NumCol Datetime64 ys) =
    Inl (TypeError ''cannot add DatetimeArray and DatetimeArray'')"
| "series_add c d = Inl (Unmodelled ''addition of columns that are not both int64'')"

definition add_total_diff :: "frame \<Rightarrow> py_error + frame" where
  "add_total_diff pool =
    (case df_get pool ''PagedDiff'' of
       Inl e \<Rightarrow> Inl e
     | Inr paged \<Rightarrow>
         (case df_get pool ''NonPagedDiff'' of
            Inl e \<Rightarrow> Inl e
          | Inr nonpaged \<Rightarrow>
              (case series_add paged nonpaged of
                 Inl e \<Rightarrow> Inl e
               | Inr total_diff \<Rightarrow> Inr (assign pool ''TotalDiff'' total_diff))))"

text \<open>
  \<^verbatim>\<open>digest\<close>. The result pairs what the call returns or raises with the object as the
  call leaves it: an exception keeps the assignments made before it (\<^verbatim>\<open>digest_called\<close>
  is set on line 136, the pool on line 142, and \<^verbatim>\<open>sort_values\<close> works in place).
\<close>

definition digest :: "argsort \<Rightarrow> PoolEntries \<Rightarrow> (py_error + frame) \<times> PoolEntries" where
  "digest qs self =
    (if digest_called self then (Inl (Exception ''digest() called again''), self)
     else
       let self = self\<lparr>digest_called := True\<rparr> in
       case individual_data_frames self of
         None \<Rightarrow> (Inl (TypeError ''NoneType object is not iterable''), self)
       | Some dfs \<Rightarrow>
           (case totals_all dfs of
              Inl e \<Rightarrow> (Inl e, self)
            | Inr all_dfs \<Rightarrow>
                (case concat_frames all_dfs of
                   Inl e \<Rightarrow> (Inl e, self)
                 | Inr pool \<Rightarrow>
                     let self = self\<lparr>pool_entries := Some pool, individual_data_frames := None\<rparr> in
                     (case sort_by_timestamp qs pool of
                        Inl e \<Rightarrow> (Inl e, self)
                      | Inr pool \<Rightarrow>
                          let self = self\<lparr>pool_entries := Some pool\<rparr> in
                          (case add_total_diff pool of
                             Inl e \<Rightarrow> (Inl e, self)
                           | Inr pool \<Rightarrow> (Inr pool, self\<lparr>pool_entries := Some pool\<rparr>))))))"

section \<open>Reads: \<^verbatim>\<open>get_df\<close>, \<^verbatim>\<open>get_all_tags\<close> (lines 165-192)\<close>

definition get_df :: "argsort \<Rightarrow> PoolEntries \<Rightarrow> (py_error + frame option) \<times> PoolEntries" where
  "get_df qs self =
    (if \<not> digest_called self then
       (case digest qs self of
          (Inl e, self) \<Rightarrow> (Inl e, self)
        | (Inr pool, self) \<Rightarrow> (Inr (pool_entries self), self))
     else (Inr (pool_entries self), self))"

text \<open>\<^verbatim>\<open>Series.unique()\<close>: the distinct values in the order of their first appearance.\<close>

definition unique :: "'a list \<Rightarrow> 'a list" where
  "unique xs = rev (remdups (rev xs))"

fun col_cells :: "column \<Rightarrow> cell list" where
  "col_cells (NumCol t xs) = map (NumV t) xs"
| "col_cells (ObjCol xs) = map StrV xs"

definition all_tags_of :: "frame option \<Rightarrow> py_error + cell list" where
  "all_tags_of pool_opt =
    (case pool_opt of
       None \<Rightarrow> Inl (TypeError ''NoneType object is not subscriptable'')
     | Some pool \<Rightarrow>
         (case df_get pool ''Tag'' of
            Inl e \<Rightarrow> Inl e
          | Inr c \<Rightarrow> Inr (unique (col_cells c))))"

definition get_all_tags :: "argsort \<Rightarrow> PoolEntries \<Rightarrow> (py_error + cell list) \<times> PoolEntries" where
  "get_all_tags qs self =
    (if \<not> digest_called self then
       (case digest qs self of
          (Inl e, self) \<Rightarrow> (Inl e, self)
        | (Inr pool, self) \<Rightarrow> (all_tags_of (pool_entries self), self))
     else (all_tags_of (pool_entries self), self))"

section \<open>Selection: \<^verbatim>\<open>get_highest_tags\<close>, \<^verbatim>\<open>get_most_changed_tags\<close> (lines 196-276)\<close>

text \<open>
  The parameter \<^verbatim>\<open>ignore_tags\<close> is a reference to a list object, and line 221 (265)
  appends to that object. The list objects live in a store. Each of the two methods owns
  one list object for good, the value of its default \<^verbatim>\<open>ignore_tags=[]\<close>, made once when
  the \<^verbatim>\<open>def\<close> is executed; a caller's lists are the objects \<open>Obj n\<close>.
\<close>

datatype list_ref = HighestDefault | ChangedDefault | Obj nat

type_synonym store = "list_ref \<Rightarrow> string list"

text \<open>What the caller passes for \<^verbatim>\<open>ignore_tags\<close>: nothing, \<^verbatim>\<open>None\<close> or another value that
  is no list, or a list object.\<close>

datatype ignore_arg = Omitted | NotAList | ListObj list_ref

text \<open>
  Lines 219-221 (263-265): a value that is no list is replaced by a fresh empty list,
  then \<^verbatim>\<open>'TOTAL'\<close> is appended to the list object in hand. The result is the content
  of that object and the store after the append.
\<close>

definition append_TOTAL :: "list_ref \<Rightarrow> store \<Rightarrow> ignore_arg \<Rightarrow> string list \<times> store" where
  "append_TOTAL dflt h a =
    (case a of
       NotAList \<Rightarrow> ([] @ [''TOTAL''], h)
     | Omitted \<Rightarrow> (h dflt @ [''TOTAL''], h(dflt := h dflt @ [''TOTAL'']))
     | ListObj r \<Rightarrow> (h r @ [''TOTAL''], h(r := h r @ [''TOTAL''])))"

text \<open>
  Lines 222-224 (266-268): the rows whose tag is not in \<^verbatim>\<open>ignore_tags\<close>, reduced to the
  columns \<^verbatim>\<open>Tag\<close> and \<^verbatim>\<open>by_col\<close>, in the order of the pool. The model follows text tags
  and an \<^verbatim>\<open>int64\<close> column \<^verbatim>\<open>by_col\<close>.
\<close>

definition reduce_df :: "frame \<Rightarrow> string \<Rightarrow> string list \<Rightarrow> py_error + (string \<times> int64) list" where
  "reduce_df pool by_col ignore_tags =
    (case df_get pool ''Tag'' of
       Inl e \<Rightarrow> Inl e
     | Inr (NumCol t xs) \<Rightarrow> Inl (Unmodelled ''selection on a numeric Tag column'')
     | Inr (ObjCol tags) \<Rightarrow>
         (case df_get pool by_col of
            Inl e \<Rightarrow> Inl e
          | Inr (ObjCol vs) \<Rightarrow> Inl (Unmodelled ''selection by an object column'')
          | Inr (NumCol t vals) \<Rightarrow>
              (if t = Int64 then
                 Inr (filter (\<lambda>(tag, v). tag \<notin> set ignore_tags) (zip tags vals))
               else Inl (Unmodelled ''selection by a column that is not int64''))))"

text \<open>\<^verbatim>\<open>groupby(['Tag'])\<close>: one group per tag, the groups in ascending order of the tag,
  each with its values in the order of the rows.\<close>

definition groupby_Tag :: "(string \<times> int64) list \<Rightarrow> (string \<times> int64 list) list" where
  "groupby_Tag rows =
    map (\<lambda>t. (t, map snd (filter (\<lambda>(tag, v). tag = t) rows)))
        (sort (remdups (map fst rows)))"

text \<open>The aggregation of every group to one value; the exception of a group is the
  exception of the whole.\<close>

fun agg :: "(int64 list \<Rightarrow> py_error + int64) \<Rightarrow> (string \<times> int64 list) list
    \<Rightarrow> py_error + (string \<times> int64) list" where
  "agg f [] = Inr []"
| "agg f ((t, vs) # groups) =
    (case f vs of
       Inl e \<Rightarrow> Inl e
     | Inr v \<Rightarrow>
         (case agg f groups of
            Inl e \<Rightarrow> Inl e
          | Inr rest \<Rightarrow> Inr ((t, v) # rest)))"

text \<open>\<^verbatim>\<open>.max()\<close> of a group, on signed 64-bit values.\<close>

definition smax :: "int64 \<Rightarrow> int64 \<Rightarrow> int64" where
  "smax a b = (if sint a < sint b then b else a)"

fun group_max :: "int64 list \<Rightarrow> py_error + int64" where
  "group_max [] = Inl (ValueError ''max of an empty group'')"
| "group_max (v # vs) = Inr (fold (\<lambda>x m. smax m x) vs v)"

text \<open>Lines 259-261: \<^verbatim>\<open>get_change\<close> takes the items 0 and -1 of the group's values and
  returns \<^verbatim>\<open>last - first\<close>, an \<^verbatim>\<open>int64\<close> subtraction.\<close>

fun get_change :: "int64 list \<Rightarrow> py_error + int64" where
  "get_change [] = Inl (IndexError ''index 0 is out of bounds for axis 0 with size 0'')"
| "get_change (v # vs) = Inr (last (v # vs) - v)"

text \<open>\<^verbatim>\<open>.sort_values([by_col], ascending=False)\<close> on the aggregated table.\<close>

definition sort_desc :: "argsort \<Rightarrow> (string \<times> int64) list \<Rightarrow> (string \<times> int64) list" where
  "sort_desc qs g = map ((!) g) (nargsort qs False (map (\<lambda>(t, v). sint v) g))"

text \<open>\<^verbatim>\<open>.head(n)\<close>: the first \<open>n\<close> rows, or all but the last \<open>-n\<close> when \<open>n\<close> is negative.\<close>

definition head :: "int \<Rightarrow> 'a list \<Rightarrow> 'a list" where
  "head n xs = (if 0 \<le> n then take (nat n) xs else take (length xs - nat (- n)) xs)"

text \<open>Lines 222-229: from the pool and the content of \<^verbatim>\<open>ignore_tags\<close> to the names of
  the \<^verbatim>\<open>n_tags\<close> tags with the highest maxima.\<close>

definition highest_tags_of ::
  "argsort \<Rightarrow> frame \<Rightarrow> int \<Rightarrow> string \<Rightarrow> string list \<Rightarrow> py_error + string list" where
  "highest_tags_of qs pool n_tags by_col ignore_tags =
    (case reduce_df pool by_col ignore_tags of
       Inl e \<Rightarrow> Inl e
     | Inr reduced_df \<Rightarrow>
         (case agg group_max (groupby_Tag reduced_df) of
            Inl e \<Rightarrow> Inl e
          | Inr top_users \<Rightarrow> Inr (map fst (head n_tags (sort_desc qs top_users)))))"

text \<open>Lines 266-276: the same with \<^verbatim>\<open>get_change\<close> in place of the maximum.\<close>

definition most_changed_tags_of ::
  "argsort \<Rightarrow> frame \<Rightarrow> int \<Rightarrow> string \<Rightarrow> string list \<Rightarrow> py_error + string list" where
  "most_changed_tags_of qs pool n_tags by_col ignore_tags =
    (case reduce_df pool by_col ignore_tags of
       Inl e \<Rightarrow> Inl e
     | Inr reduced_df \<Rightarrow>
         (case agg get_change (groupby_Tag reduced_df) of
            Inl e \<Rightarrow> Inl e
          | Inr g \<Rightarrow> Inr (map fst (head n_tags (sort_desc qs g)))))"

text \<open>
  The two methods. Neither looks at \<^verbatim>\<open>digest_called\<close>: they subscript
  \<^verbatim>\<open>self.pool_entries\<close> as it is, which raises \<^verbatim>\<open>TypeError\<close> while it is \<^verbatim>\<open>None\<close>. The
  append to \<^verbatim>\<open>ignore_tags\<close> comes first and stays when a later line raises. The result
  pairs what the call returns or raises with the store of list objects after it.
\<close>

definition get_highest_tags ::
  "argsort \<Rightarrow> PoolEntries \<Rightarrow> store \<Rightarrow> int \<Rightarrow> string \<Rightarrow> ignore_arg
    \<Rightarrow> (py_error + string list) \<times> store" where
  "get_highest_tags qs self h n_tags by_col ignore_tags =
    (let (ignore_tags, h) = append_TOTAL HighestDefault h ignore_tags in
     (case pool_entries self of
        None \<Rightarrow> Inl (TypeError ''NoneType object is not subscriptable'')
      | Some pool \<Rightarrow> highest_tags_of qs pool n_tags by_col ignore_tags,
      h))"

definition get_most_changed_tags ::
  "argsort \<Rightarrow> PoolEntries \<Rightarrow> store \<Rightarrow> int \<Rightarrow> string \<Rightarrow> ignore_arg
    \<Rightarrow> (py_error + string list) \<times> store" where
  "get_most_changed_tags qs self h n_tags by_col ignore_tags =
    (let (ignore_tags, h) = append_TOTAL ChangedDefault h ignore_tags in
     (case pool_entries self of
        None \<Rightarrow> Inl (TypeError ''NoneType object is not subscriptable'')
      | Some pool \<Rightarrow> most_changed_tags_of qs pool n_tags by_col ignore_tags,
      h))"

section \<open>Reporting: \<^verbatim>\<open>show_plot\<close>, \<^verbatim>\<open>do_plot\<close> (lines 280-441)\<close>

text \<open>
  The rendering collaborator (matplotlib, and the pivot that feeds it) is outside the
  program. The model keeps the list of the calls made to it: an update of \<^verbatim>\<open>rcParams\<close>
  (line 322), and the request to pivot and draw (lines 338-350) with the table handed
  over, whether its values are divided by \<open>1024 * 1024\<close> (lines 329-333), the title and
  the format of the value axis.
\<close>

record plot_request =
  table :: frame
  megabytes :: bool
  title :: string
  yformat :: string

datatype render_call = RcParamsUpdate "(string \<times> string) list" | Plot plot_request

definition valid_cols :: "string list" where
  "valid_cols = [''TotalUsedBytes'', ''PagedDiff'', ''NonPagedDiff'',
                 ''TotalDiff'', ''PagedUsedBytes'', ''NonPagedUsedBytes'']"

text \<open>\<^verbatim>\<open>df[mask]\<close> and \<^verbatim>\<open>df[[names]]\<close>.\<close>

definition filter_rows :: "frame \<Rightarrow> bool list \<Rightarrow> frame" where
  "filter_rows df keep = take_rows df (filter (\<lambda>i. keep ! i) [0..<length keep])"

fun select_cols :: "frame \<Rightarrow> string list \<Rightarrow> py_error + frame" where
  "select_cols df [] = Inr []"
| "select_cols df (n # ns) =
    (case df_get df n of
       Inl e \<Rightarrow> Inl e
     | Inr c \<Rightarrow>
         (case select_cols df ns of
            Inl e \<Rightarrow> Inl e
          | Inr rest \<Rightarrow> Inr ((n, c) # rest)))"

definition show_plot ::
  "PoolEntries \<Rightarrow> render_call list \<Rightarrow> string list \<Rightarrow> string \<Rightarrow> string
    \<Rightarrow> (string \<times> string) list option \<Rightarrow> (py_error + unit) \<times> render_call list" where
  "show_plot self calls tags timestamp_tag by_col rcparams =
    (if timestamp_tag \<notin> set [''DateTime'', ''DateTimeUTC''] then
       (Inl (Exception ''Invalid timestamp tag''), calls)
     else if by_col \<notin> set valid_cols then
       (Inl (Exception ''Invalid column name''), calls)
     else
       let calls = (case rcparams of None \<Rightarrow> calls | Some rc \<Rightarrow> calls @ [RcParamsUpdate rc]) in
       case pool_entries self of
         None \<Rightarrow> (Inl (TypeError ''NoneType object is not subscriptable''), calls)
       | Some pool \<Rightarrow>
           (case df_get pool ''Tag'' of
              Inl e \<Rightarrow> (Inl e, calls)
            | Inr (NumCol t xs) \<Rightarrow> (Inl (Unmodelled ''selection on a numeric Tag column''), calls)
            | Inr (ObjCol pool_tags) \<Rightarrow>
                (case select_cols (filter_rows pool (map (\<lambda>t. t \<in> set tags) pool_tags))
                        [''Tag'', by_col, ''DateTimeUTC''] of
                   Inl e \<Rightarrow> (Inl e, calls)
                 | Inr reduced_df \<Rightarrow>
                     (Inr (),
                      calls @ [Plot \<lparr>table = reduced_df,
                                     megabytes = endswith by_col ''Bytes'',
                                     title = (if endswith by_col ''Bytes'' then by_col @ '' (MB)''
                                              else by_col @ '' (n_allocs)''),
                                     yformat = (if endswith by_col ''Bytes'' then ''%.3f''
                                                else ''%d'')\<rparr>]))))"

text \<open>Lines 427-436: a tag joins \<^verbatim>\<open>all_tags\<close> unless it is there already.\<close>

fun add_tags :: "string list \<Rightarrow> string list \<Rightarrow> string list" where
  "add_tags all_tags [] = all_tags"
| "add_tags all_tags (t # ts) =
    add_tags (if t \<in> set all_tags then all_tags else all_tags @ [t]) ts"

text \<open>What \<^verbatim>\<open>do_plot\<close> works on: the object, the store of list objects and the calls made
  to the rendering collaborator so far.\<close>

record world =
  pe :: PoolEntries
  lists :: store
  rendered :: "render_call list"

text \<open>
  \<^verbatim>\<open>do_plot\<close>. Its \<^verbatim>\<open>ignore_tags\<close> is \<^verbatim>\<open>None\<close> or a list object and is passed on as it
  is; \<^verbatim>\<open>include_tags\<close> is \<^verbatim>\<open>None\<close> or a list.
\<close>

definition do_plot ::
  "argsort \<Rightarrow> world \<Rightarrow> string \<Rightarrow> string \<Rightarrow> list_ref option \<Rightarrow> string list option
    \<Rightarrow> (string \<times> string) list option \<Rightarrow> int \<Rightarrow> int \<Rightarrow> (py_error + unit) \<times> world" where
  "do_plot qs w by_col timestamp_tag ignore_tags include_tags rcparams n_most_changed n_highest =
    (if timestamp_tag \<notin> set [''DateTime'', ''DateTimeUTC''] then
       (Inl (Exception ''Invalid timestamp tag''), w)
     else if by_col \<notin> set valid_cols then
       (Inl (Exception ''Invalid column name''), w)
     else
       let include_tags = (case include_tags of None \<Rightarrow> [] | Some ts \<Rightarrow> ts);
           ignore_tags = (case ignore_tags of None \<Rightarrow> NotAList | Some r \<Rightarrow> ListObj r);
           (digested, w) =
             (if \<not> digest_called (pe w) then
                (case digest qs (pe w) of
                   (Inl e, self) \<Rightarrow> (Inl e, w\<lparr>pe := self\<rparr>)
                 | (Inr pool, self) \<Rightarrow> (Inr (), w\<lparr>pe := self\<rparr>))
              else (Inr (), w))
       in
       case digested of
         Inl e \<Rightarrow> (Inl e, w)
       | Inr u \<Rightarrow>
           let (most_changed, w) =
                 (if n_most_changed > 0 then
                    (case get_most_changed_tags qs (pe w) (lists w) n_most_changed by_col ignore_tags of
                       (r, h) \<Rightarrow> (r, w\<lparr>lists := h\<rparr>))
                  else (Inr [], w))
           in
           (case most_changed of
              Inl e \<Rightarrow> (Inl e, w)
            | Inr most_changed_tags \<Rightarrow>
                let (highest, w) =
                      (if n_highest > 0 then
                         (case get_highest_tags qs (pe w) (lists w) n_highest by_col ignore_tags of
                            (r, h) \<Rightarrow> (r, w\<lparr>lists := h\<rparr>))
                       else (Inr [], w))
                in
                (case highest of
                   Inl e \<Rightarrow> (Inl e, w)
                 | Inr highest_tags \<Rightarrow>
                     let all_tags =
                           add_tags (add_tags (add_tags [''TOTAL''] include_tags)
                                       most_changed_tags) highest_tags
                     in
                     (case show_plot (pe w) (rendered w) all_tags timestamp_tag by_col rcparams of
                        (r, calls) \<Rightarrow> (r, w\<lparr>rendered := calls\<rparr>)))))"

section \<open>The specification's terms and example data\<close>

text \<open>
  The column that normalization is to produce from a column: an \<^verbatim>\<open>int64\<close> column gains
  its sum, the \<^verbatim>\<open>Tag\<close> text column gains \<^verbatim>\<open>TOTAL\<close>, every other column gains its own
  first value.
\<close>

fun total_col :: "string \<Rightarrow> column \<Rightarrow> column" where
  "total_col n (NumCol t xs) = NumCol t (xs @ [if t = Int64 then sum_list xs else xs ! 0])"
| "total_col n (ObjCol xs) = ObjCol (xs @ [if n = ''Tag'' then ''TOTAL'' else xs ! 0])"

fun int64_items :: "column \<Rightarrow> int64 list" where
  "int64_items (NumCol t xs) = xs"
| "int64_items (ObjCol xs) = []"

text \<open>
  Two snapshots of the tags A, B and C, taken at the instants 100 and 200 (UTC). The
  column \<^verbatim>\<open>Rate\<close> is a \<^verbatim>\<open>float64\<close> counter (1.5, 2.0 and 3.0 in the first snapshot).
\<close>

definition snapshot1 :: frame where
  "snapshot1 =
    [(''Tag'', ObjCol [''A'', ''B'', ''C'']),
     (''DateTime'', NumCol Datetime64 [7300, 7300, 7300]),
     (''DateTimeUTC'', NumCol Datetime64 [100, 100, 100]),
     (''PagedDiff'', NumCol Int64 [1, 2, 3]),
     (''NonPagedDiff'', NumCol Int64 [10, 20, 30]),
     (''TotalUsedBytes'', NumCol Int64 [100, 200, 300]),
     (''Rate'', NumCol Float64 [0x3FF8000000000000, 0x4000000000000000, 0x4008000000000000])]"

definition snapshot2 :: frame where
  "snapshot2 =
    [(''Tag'', ObjCol [''A'', ''B'', ''C'']),
     (''DateTime'', NumCol Datetime64 [7400, 7400, 7400]),
     (''DateTimeUTC'', NumCol Datetime64 [200, 200, 200]),
     (''PagedDiff'', NumCol Int64 [4, 2, - 5]),
     (''NonPagedDiff'', NumCol Int64 [40, 20, 30]),
     (''TotalUsedBytes'', NumCol Int64 [500, 900, 300]),
     (''Rate'', NumCol Float64 [0x4008000000000000, 0x4000000000000000, 0x3FF8000000000000])]"

text \<open>The pipeline after \<^verbatim>\<open>add_csv_file\<close> of the later snapshot, then of the earlier.\<close>

definition two_snapshots :: PoolEntries where
  "two_snapshots = init\<lparr>individual_data_frames := Some [snapshot2, snapshot1]\<rparr>"

text \<open>The table \<^verbatim>\<open>add_totals_row\<close> is to return.\<close>

definition with_total :: "frame \<Rightarrow> frame" where
  "with_total df = map (\<lambda>(n, c). (n, total_col n c)) df"

text \<open>
  A snapshot table of a given schema (the list of column names and dtype names): a frame
  with at least one row. A schema fit for consolidation has a text column \<^verbatim>\<open>Tag\<close>, a
  datetime column and the \<^verbatim>\<open>int64\<close> counters \<^verbatim>\<open>PagedDiff\<close> and \<^verbatim>\<open>NonPagedDiff\<close>.
\<close>

definition snapshot_table :: "(string \<times> string) list \<Rightarrow> frame \<Rightarrow> bool" where
  "snapshot_table schema df = (wf_frame df \<and> 0 < nrows df \<and> column_types df = schema)"

definition pool_schema :: "(string \<times> string) list \<Rightarrow> bool" where
  "pool_schema schema =
    ((''Tag'', ''object'') \<in> set schema \<and>
     list_ex (\<lambda>(colname, coltype). coltype = ''datetime64[ns]'') schema \<and>
     (''PagedDiff'', ''int64'') \<in> set schema \<and>
     (''NonPagedDiff'', ''int64'') \<in> set schema)"

definition example_schema :: "(string \<times> string) list" where
  "example_schema =
    [(''Tag'', ''object''), (''DateTime'', ''datetime64[ns]''),
     (''DateTimeUTC'', ''datetime64[ns]''), (''PagedDiff'', ''int64''),
     (''NonPagedDiff'', ''int64''), (''TotalUsedBytes'', ''int64''), (''Rate'', ''float64'')]"

text \<open>The pool of the two snapshots, and the object after \<^verbatim>\<open>digest\<close>.\<close>

definition two_snapshots_pool :: frame where
  "two_snapshots_pool =
    [(''Tag'', ObjCol [''A'', ''B'', ''C'', ''TOTAL'', ''A'', ''B'', ''C'', ''TOTAL'']),
     (''DateTime'', NumCol Datetime64 [7300, 7300, 7300, 7300, 7400, 7400, 7400, 7400]),
     (''DateTimeUTC'', NumCol Datetime64 [100, 100, 100, 100, 200, 200, 200, 200]),
     (''PagedDiff'', NumCol Int64 [1, 2, 3, 6, 4, 2, - 5, 1]),
     (''NonPagedDiff'', NumCol Int64 [10, 20, 30, 60, 40, 20, 30, 90]),
     (''TotalUsedBytes'', NumCol Int64 [100, 200, 300, 600, 500, 900, 300, 1700]),
     (''Rate'', NumCol Float64
        [0x3FF8000000000000, 0x4000000000000000, 0x4008000000000000, 0x3FF8000000000000,
         0x4008000000000000, 0x4000000000000000, 0x3FF8000000000000, 0x4008000000000000]),
     (''TotalDiff'', NumCol Int64 [11, 22, 33, 66, 44, 22, 25, 91])]"

definition two_snapshots_digested :: PoolEntries where
  "two_snapshots_digested =
    \<lparr>individual_data_frames = None, pool_entries = Some two_snapshots_pool,
     digest_called = True\<rparr>"






text \<open>
  The terms of the selection claims, over the \<^verbatim>\<open>Tag\<close> column and the column \<^verbatim>\<open>by_col\<close> of
  the pool: the values of a tag in the order of the pool's rows, their signed maximum,
  and the \<^verbatim>\<open>int64\<close> difference of the last and the first of them, read as a signed number.
\<close>

definition tag_values :: "string list \<Rightarrow> int64 list \<Rightarrow> string \<Rightarrow> int64 list" where
  "tag_values tags vals t = map snd (filter (\<lambda>(tag, v). tag = t) (zip tags vals))"

definition peak :: "string list \<Rightarrow> int64 list \<Rightarrow> string \<Rightarrow> int" where
  "peak tags vals t = Max (set (map sint (tag_values tags vals t)))"


text \<open>What \<^verbatim>\<open>ignore_tags\<close> holds when the call begins, and the tags left for selection:
  the distinct tags of the pool that are neither in it nor \<^verbatim>\<open>TOTAL\<close>.\<close>

definition ignored :: "list_ref \<Rightarrow> store \<Rightarrow> ignore_arg \<Rightarrow> string list" where
  "ignored dflt h a = (case a of NotAList \<Rightarrow> [] | Omitted \<Rightarrow> h dflt | ListObj r \<Rightarrow> h r)"

definition eligible :: "string list \<Rightarrow> string list \<Rightarrow> string list" where
  "eligible tags ignore_tags =
    filter (\<lambda>t. t \<notin> set ignore_tags \<and> t \<noteq> ''TOTAL'') (remdups tags)"





definition changes_pool :: frame where
  "changes_pool =
    [(''Tag'', ObjCol [''X'', ''Y'', ''Z'', ''TOTAL'', ''X'', ''Y'', ''Z'', ''TOTAL'',
                       ''X'', ''Y'', ''Z'', ''TOTAL'']),
     (''DateTimeUTC'', NumCol Datetime64 [1, 1, 1, 1, 2, 2, 2, 2, 3, 3, 3, 3]),
     (''PagedDiff'', NumCol Int64 [10, 5, 7, 22, 10, 50, 7, 67, 90, 5, 3, 98]),
     (''NonPagedDiff'', NumCol Int64 [0, 0, 0, 0, 0, 0, 0, 0, 0, 0, 0, 0]),
     (''TotalDiff'', NumCol Int64 [10, 5, 7, 22, 10, 50, 7, 67, 90, 5, 3, 98])]"

definition changes_digested :: PoolEntries where
  "changes_digested =
    \<lparr>individual_data_frames = None, pool_entries = Some changes_pool, digest_called = True\<rparr>"

text \<open>The pipeline of the two example snapshots before \<^verbatim>\<open>digest\<close>, no list object
  holding anything and no call made to the rendering collaborator.\<close>

definition fresh_world :: world where
  "fresh_world = \<lparr>pe = two_snapshots, lists = (\<lambda>r. []), rendered = []\<rparr>"

section \<open>Encoding detection: results\<close>

lemmas BOM_defs =
  BOM_UTF8_def BOM_UTF16_LE_def BOM_UTF16_BE_def BOM_UTF32_LE_def BOM_UTF32_BE_def
  BOM_UTF16_def BOMS_def

text \<open>Only the first 64 bytes count, and without a mark at their start the answer is
  \<^verbatim>\<open>"utf-8"\<close>.\<close>

lemma GetEncoding_first_64: "GetEncoding bo file = GetEncoding bo (take 64 file)"
  by (simp add: GetEncoding_def)

lemma GetEncoding_no_BOM:
  assumes "\<forall>(bom, encoding) \<in> set (BOMS bo). \<not> startswith (take 64 file) bom"
  shows "GetEncoding bo file = ''utf-8''"
proof -
  have e: "[encoding. (bom, encoding) \<leftarrow> BOMS bo, startswith (take 64 file) bom] = []"
    unfolding concat_eq_Nil_conv using assms by auto
  show ?thesis by (simp only: GetEncoding_def Let_def e list.case)
qed


text \<open>
  Claim C8. The claim says that a file beginning with the UTF-32 LE byte-order mark
  \<open>FF FE 00 00\<close> is reported as UTF-32 LE. On a little-endian platform the table tests
  \<^verbatim>\<open>codecs.BOM_UTF16\<close> (\<open>FF FE\<close> there) before \<^verbatim>\<open>codecs.BOM_UTF32_LE\<close>, and every file that
  starts with \<open>FF FE 00 00\<close> starts with \<open>FF FE\<close>: the code answers \<^verbatim>\<open>"utf-16"\<close>. On a
  big-endian platform, where \<^verbatim>\<open>codecs.BOM_UTF16\<close> is \<open>FE FF\<close>, it answers \<^verbatim>\<open>"utf-32le"\<close>.
\<close>

theorem GetEncoding_utf32le_reported_utf16:
  "GetEncoding Little ([0xFF, 0xFE, 0x00, 0x00] @ rest) = ''utf-16'' \<and>
   GetEncoding Big ([0xFF, 0xFE, 0x00, 0x00] @ rest) = ''utf-32le''"
  by (simp add: GetEncoding_def BOM_defs startswith_def)

section \<open>Normalization: results\<close>

lemma startswith_int: "startswith (dtype_str c) ''int'' \<longleftrightarrow> (\<exists>xs. c = NumCol Int64 xs)"
proof (cases c)
  case (NumCol t xs)
  then show ?thesis by (cases t) (simp_all add: startswith_def)
next
  case (ObjCol xs)
  then show ?thesis by (simp add: startswith_def)
qed

lemma startswith_datetime:
  "startswith (dtype_str c) ''datetime'' \<longleftrightarrow> (\<exists>xs. c = NumCol Datetime64 xs)"
proof (cases c)
  case (NumCol t xs)
  then show ?thesis by (cases t) (simp_all add: startswith_def)
next
  case (ObjCol xs)
  then show ?thesis by (simp add: startswith_def)
qed

lemma map_fst_assign:
  "k \<in> set (map fst d) \<Longrightarrow> map fst (assign d k v) = map fst d"
  by (induction d) (auto simp: assign_def)

lemma map_of_replace:
  "map_of (map (\<lambda>(n, x). if n = k then (n, v) else (n, x)) d) k' =
     (if k' = k then (if k \<in> fst ` set d then Some v else None) else map_of d k')"
proof (induction d)
  case Nil
  then show ?case by simp
next
  case (Cons a d)
  obtain n x where "a = (n, x)" by (cases a)
  with Cons show ?case by (auto split: if_splits)
qed

lemma map_of_assign: "map_of (assign d k v) = (map_of d)(k \<mapsto> v)"
proof (cases "k \<in> fst ` set d")
  case True
  then show ?thesis by (simp add: assign_def fun_eq_iff map_of_replace)
next
  case False
  then have "map_of d k = None" by (simp add: map_of_eq_None_iff)
  with False show ?thesis
    by (auto simp: assign_def fun_eq_iff map_add_def split: option.splits)
qed


lemma totals_loop_result:
  assumes "distinct (map fst df)" "set cts \<subseteq> set (column_types df)"
    "set (map fst cts) \<subseteq> set (map fst s)"
  shows "\<exists>s'. totals_loop df cts s = Inr s' \<and> map fst s' = map fst s \<and>
           (\<forall>n c. map_of df n = Some c \<longrightarrow>
              map_of s' n =
                (if (n, dtype_str c) \<in> set cts \<and> startswith (dtype_str c) ''int''
                 then Some (NumV Int64 (sum_list (int64_items c))) else map_of s n))"
  using assms
proof (induction cts arbitrary: s)
  case Nil
  then show ?case by simp
next
  case (Cons ct cts)
  obtain colname coltype where ct: "ct = (colname, coltype)" by (cases ct)
  from Cons.prems(2) ct obtain c0 where c0: "(colname, c0) \<in> set df" "coltype = dtype_str c0"
    by (auto simp: column_types_def)
  with Cons.prems(1) have m0: "map_of df colname = Some c0" by simp
  show ?case
  proof (cases "startswith coltype ''int''")
    case False
    from Cons.prems ct have "set cts \<subseteq> set (column_types df)" "set (map fst cts) \<subseteq> set (map fst s)"
      by auto
    from Cons.IH[OF Cons.prems(1) this] obtain s' where
      s': "totals_loop df cts s = Inr s'" "map fst s' = map fst s"
      "\<forall>n c. map_of df n = Some c \<longrightarrow> map_of s' n =
         (if (n, dtype_str c) \<in> set cts \<and> startswith (dtype_str c) ''int''
          then Some (NumV Int64 (sum_list (int64_items c))) else map_of s n)" by blast
    show ?thesis using s' False ct by auto
  next
    case True
    with c0 obtain xs where xs: "c0 = NumCol Int64 xs" by (auto simp: startswith_int)
    let ?s1 = "assign s colname (NumV Int64 (sum_list xs))"
    from Cons.prems ct have k: "colname \<in> set (map fst s)" by auto
    then have keys: "map fst ?s1 = map fst s" by (rule map_fst_assign)
    from Cons.prems ct keys have "set cts \<subseteq> set (column_types df)" "set (map fst cts) \<subseteq> set (map fst ?s1)"
      by auto
    from Cons.IH[OF Cons.prems(1) this] obtain s' where
      s': "totals_loop df cts ?s1 = Inr s'" "map fst s' = map fst ?s1"
      "\<forall>n c. map_of df n = Some c \<longrightarrow> map_of s' n =
         (if (n, dtype_str c) \<in> set cts \<and> startswith (dtype_str c) ''int''
          then Some (NumV Int64 (sum_list (int64_items c))) else map_of ?s1 n)" by blast
    have step: "totals_loop df (ct # cts) s = totals_loop df cts ?s1"
      using True ct m0 xs by (simp add: df_get_def)
    show ?thesis
    proof (intro exI conjI allI impI)
      show "totals_loop df (ct # cts) s = Inr s'" using step s'(1) by simp
      show "map fst s' = map fst s" using s'(2) keys by simp
    next
      fix n c assume nc: "map_of df n = Some c"
      show "map_of s' n =
        (if (n, dtype_str c) \<in> set (ct # cts) \<and> startswith (dtype_str c) ''int''
         then Some (NumV Int64 (sum_list (int64_items c))) else map_of s n)"
      proof (cases "n = colname")
        case True
        with nc m0 have "c = c0" by simp
        then show ?thesis using s'(3) nc True xs c0 ct \<open>startswith coltype ''int''\<close>
          by (auto simp: map_of_assign)
      next
        case False
        then show ?thesis using s'(3) nc ct by (auto simp: map_of_assign)
      qed
    qed
  qed
qed


lemma append_cols_map:
  assumes "\<And>n c. (n, c) \<in> set df \<Longrightarrow> \<exists>v. map_of s n = Some v \<and> append_cell c v = Inr (f n c)"
  shows "append_cols df s = Inr (map (\<lambda>(n, c). (n, f n c)) df)"
  using assms
proof (induction df)
  case Nil
  then show ?case by simp
next
  case (Cons a df)
  obtain n c where a: "a = (n, c)" by (cases a)
  from Cons.prems[of n c] a obtain v where v: "map_of s n = Some v" "append_cell c v = Inr (f n c)"
    by auto
  have "append_cols df s = Inr (map (\<lambda>(n, c). (n, f n c)) df)"
    by (rule Cons.IH) (simp add: Cons.prems)
  with v a show ?case by simp
qed


lemma wf_map_of:
  assumes "wf_frame df"
  shows "map_of df n = Some c \<longleftrightarrow> (n, c) \<in> set df"
  using assms by (auto simp: wf_frame_def columns_def dest: map_of_SomeD)

lemma add_totals_row_eq:
  assumes wf: "wf_frame df" and pos: "0 < nrows df"
    and tag: "map_of df ''Tag'' = Some (ObjCol tags)"
  shows "add_totals_row df = Inr (map (\<lambda>(n, c). (n, total_col n c)) df)"
proof -
  let ?s0 = "map (\<lambda>(n, c). (n, col_cell c 0)) df"
  let ?s1 = "assign ?s0 ''Tag'' (StrV ''TOTAL'')"
  have d: "distinct (map fst df)" using wf by (simp add: wf_frame_def columns_def)
  have keys0: "map fst ?s0 = map fst df" by (induction df) auto
  have tagin: "''Tag'' \<in> set (map fst df)" using tag by (force dest: map_of_SomeD)
  have keys1: "map fst ?s1 = map fst df"
    using map_fst_assign[of "''Tag''" ?s0] tagin keys0 by simp
  have l0: "loc0 df = Inr ?s0" using pos by (simp add: loc0_def)
  have sub: "set (map fst (column_types df)) \<subseteq> set (map fst ?s1)"
    unfolding keys1 by (force simp: column_types_def)
  from totals_loop_result[OF d subset_refl sub] obtain s' where
    s': "totals_loop df (column_types df) ?s1 = Inr s'" "map fst s' = map fst ?s1"
    "\<forall>n c. map_of df n = Some c \<longrightarrow> map_of s' n =
       (if (n, dtype_str c) \<in> set (column_types df) \<and> startswith (dtype_str c) ''int''
        then Some (NumV Int64 (sum_list (int64_items c))) else map_of ?s1 n)" by blast
  have m0: "map_of ?s0 n = Some (col_cell c 0)" if "map_of df n = Some c" for n c
    using that by (simp add: map_of_map)
  have cells: "\<exists>v. map_of s' n = Some v \<and> append_cell c v = Inr (total_col n c)"
    if nc: "(n, c) \<in> set df" for n c
  proof -
    have m: "map_of df n = Some c" using nc wf by (simp add: wf_map_of)
    have inct: "(n, dtype_str c) \<in> set (column_types df)"
      using nc by (force simp: column_types_def)
    show ?thesis
    proof (cases c)
      case (NumCol t xs)
      show ?thesis
      proof (cases "t = Int64")
        case True
        with NumCol s'(3) m inct show ?thesis by (simp add: startswith_int)
      next
        case False
        with NumCol have ns: "\<not> startswith (dtype_str c) ''int''" by (simp add: startswith_int)
        from NumCol m tag have "n \<noteq> ''Tag''" by auto
        with s'(3) m ns m0[OF m] NumCol False show ?thesis by (simp add: map_of_assign)
      qed
    next
      case (ObjCol xs)
      then have ns: "\<not> startswith (dtype_str c) ''int''" unfolding startswith_int by simp
      with s'(3) m m0[OF m] ObjCol show ?thesis by (simp add: map_of_assign)
    qed
  qed
  have "append_cols df s' = Inr (map (\<lambda>(n, c). (n, total_col n c)) df)"
    by (rule append_cols_map) (rule cells)
  moreover have "set (map fst s') \<subseteq> set (columns df)"
    using s'(2) keys1 by (simp add: columns_def)
  ultimately show ?thesis using l0 s'(1) by (simp add: add_totals_row_def append_row_def)
qed

lemma dtype_str_total_col: "dtype_str (total_col n c) = dtype_str c"
  by (cases c; cases "case c of NumCol t xs \<Rightarrow> t | _ \<Rightarrow> Int64") auto



lemma col_cell_total_col_new:
  "col_cell (total_col n c) (col_len c) =
    (case c of
       NumCol t xs \<Rightarrow> NumV t (if t = Int64 then sum_list xs else xs ! 0)
     | ObjCol xs \<Rightarrow> StrV (if n = ''Tag'' then ''TOTAL'' else xs ! 0))"
  by (cases c) (auto simp: nth_append)


text \<open>
  The sum of an \<^verbatim>\<open>int64\<close> column is taken modulo \<open>2^64\<close>. Read as signed numbers, it is
  the sum of the values whenever that sum is itself an \<^verbatim>\<open>int64\<close>.
\<close>

lemma sint_sum_list:
  fixes xs :: "int64 list"
  shows "sint (sum_list xs) = signed_take_bit 63 (\<Sum>x\<leftarrow>xs. sint x)"
proof (induction xs)
  case Nil
  then show ?case by simp
next
  case (Cons x xs)
  have "sint (x + sum_list xs) = signed_take_bit 63 (sint x + sint (sum_list xs))"
    by (simp add: sint_word_ariths)
  also have "\<dots> = signed_take_bit 63 (sint x + signed_take_bit 63 (\<Sum>x\<leftarrow>xs. sint x))"
    by (simp only: Cons.IH)
  also have "\<dots> = signed_take_bit 63 (sint x + (\<Sum>x\<leftarrow>xs. sint x))"
    by (metis signed_take_bit_add signed_take_bit_signed_take_bit min.idem)
  finally show ?case by simp
qed

lemma sint_sum_list_exact:
  fixes xs :: "int64 list"
  assumes "- (2 ^ 63) \<le> (\<Sum>x\<leftarrow>xs. sint x)" and "(\<Sum>x\<leftarrow>xs. sint x) < 2 ^ 63"
  shows "sint (sum_list xs) = (\<Sum>x\<leftarrow>xs. sint x)"
  unfolding sint_sum_list using assms by (simp add: signed_take_bit_int_eq_self)




section \<open>Sorting: results\<close>

lemma stable_argsort_ok: "argsort_ok stable_argsort"
  unfolding argsort_ok_def stable_argsort_def
  by auto


text \<open>The stable sort leaves rows with equal keys in the order of their positions; the
  contract \<open>argsort_ok\<close> does not ask for it, and \<open>reversing_argsort\<close> does not do it.\<close>

lemma sorted_wrt_filter_nth:
  assumes "sorted_wrt R (filter P xs)" and "a < b" and "b < length xs"
    and "P (xs ! a)" and "P (xs ! b)"
  shows "R (xs ! a) (xs ! b)"
proof -
  have xs: "xs = take b xs @ xs ! b # drop (Suc b) xs"
    using assms(3) by (simp add: id_take_nth_drop)
  have "filter P xs = filter P (take b xs) @ xs ! b # filter P (drop (Suc b) xs)"
    using assms(5) by (subst xs) simp
  with assms(1) have "\<forall>x \<in> set (filter P (take b xs)). R x (xs ! b)"
    by (simp add: sorted_wrt_append)
  moreover have "xs ! a \<in> set (take b xs)"
    using assms(2,3) by (auto simp: in_set_conv_nth intro!: exI[of _ a])
  ultimately show ?thesis using assms(4) by simp
qed

lemma stable_argsort_keeps_ties:
  assumes "a < b" and "b < length ks"
    and "ks ! (stable_argsort ks ! a) = ks ! (stable_argsort ks ! b)"
  shows "stable_argsort ks ! a < stable_argsort ks ! b"
proof -
  let ?idx = "stable_argsort ks"
  let ?P = "\<lambda>i. ks ! i = ks ! (?idx ! a)"
  have "filter ?P ?idx = filter ?P [0..<length ks]"
    unfolding stable_argsort_def by (rule sort_key_stable)
  moreover have "sorted_wrt (<) (filter ?P [0..<length ks])"
    by (intro sorted_wrt_filter) (simp add: sorted_wrt_upt)
  ultimately have s: "sorted_wrt (<) (filter ?P ?idx)" by simp
  have len: "length ?idx = length ks" by (simp add: stable_argsort_def)
  show ?thesis
    by (rule sorted_wrt_filter_nth[OF s assms(1)]) (use assms len in simp_all)
qed

section \<open>Consolidation: results\<close>

lemma column_types_with_total: "column_types (with_total df) = column_types df"
  by (induction df) (auto simp: with_total_def column_types_def dtype_str_total_col)

lemma columns_column_types: "columns df = map fst (column_types df)"
  by (induction df) (auto simp: columns_def column_types_def)

lemma dtype_object: "dtype_str c = ''object'' \<longleftrightarrow> (\<exists>xs. c = ObjCol xs)"
  by (cases c; cases "case c of NumCol t xs \<Rightarrow> t | _ \<Rightarrow> Int64") auto

lemma dtype_int64: "dtype_str c = ''int64'' \<longleftrightarrow> (\<exists>xs. c = NumCol Int64 xs)"
  by (cases c; cases "case c of NumCol t xs \<Rightarrow> t | _ \<Rightarrow> Int64") auto

lemma dtype_datetime: "dtype_str c = ''datetime64[ns]'' \<longleftrightarrow> (\<exists>xs. c = NumCol Datetime64 xs)"
  by (cases c; cases "case c of NumCol t xs \<Rightarrow> t | _ \<Rightarrow> Int64") auto

lemma column_types_lookup:
  assumes "distinct (columns df)" and "(n, ty) \<in> set (column_types df)"
  shows "\<exists>c. map_of df n = Some c \<and> dtype_str c = ty"
proof -
  from assms(2) obtain c where "(n, c) \<in> set df" "ty = dtype_str c"
    by (auto simp: column_types_def)
  with assms(1) show ?thesis by (auto simp: columns_def)
qed

lemma totals_all_snapshots:
  assumes "\<forall>df \<in> set dfs. snapshot_table schema df" and "(''Tag'', ''object'') \<in> set schema"
  shows "totals_all dfs = Inr (map with_total dfs)"
  using assms(1)
proof (induction dfs)
  case Nil
  then show ?case by simp
next
  case (Cons df dfs)
  then have st: "wf_frame df" "0 < nrows df" "column_types df = schema"
    by (auto simp: snapshot_table_def)
  with assms(2) obtain c where "map_of df ''Tag'' = Some c" "dtype_str c = ''object''"
    using column_types_lookup[of df "''Tag''" "''object''"] by (auto simp: wf_frame_def)
  then obtain tags where "map_of df ''Tag'' = Some (ObjCol tags)" by (auto simp: dtype_object)
  from add_totals_row_eq[OF st(1,2) this] have "add_totals_row df = Inr (with_total df)"
    by (simp add: with_total_def)
  moreover have "totals_all dfs = Inr (map with_total dfs)" using Cons by simp
  ultimately show ?case by simp
qed

lemma col_concat_same:
  "dtype_str c = dtype_str d \<Longrightarrow> \<exists>cd. col_concat c d = Inr cd \<and> dtype_str cd = dtype_str c"
  by (cases c; cases d; cases "case c of NumCol t xs \<Rightarrow> t | _ \<Rightarrow> Int64";
      cases "case d of NumCol t xs \<Rightarrow> t | _ \<Rightarrow> Int64") auto

lemma concat2_same:
  "column_types a = column_types b \<Longrightarrow> \<exists>ab. concat2 a b = Inr ab \<and> column_types ab = column_types a"
proof (induction a b rule: concat2.induct)
  case 1
  then show ?case by (simp add: column_types_def)
next
  case (2 n c a m d b)
  then have nm: "n = m" and dt: "dtype_str c = dtype_str d" and rest: "column_types a = column_types b"
    by (auto simp: column_types_def)
  from col_concat_same[OF dt] obtain cd where cd: "col_concat c d = Inr cd" "dtype_str cd = dtype_str c"
    by blast
  from 2(1)[OF _ cd(1)] nm rest obtain ab where "concat2 a b = Inr ab" "column_types ab = column_types a"
    by auto
  with nm cd show ?case by (simp add: column_types_def)
next
  case (3 x b)
  then show ?case by (simp add: column_types_def)
next
  case (4 x a)
  then show ?case by (simp add: column_types_def)
qed

lemma concat_frames_same:
  assumes "dfs \<noteq> []" and "\<forall>df \<in> set dfs. column_types df = schema"
  shows "\<exists>cat. concat_frames dfs = Inr cat \<and> column_types cat = schema"
  using assms
proof (induction dfs rule: concat_frames.induct)
  case 1
  then show ?case by simp
next
  case (2 df)
  then show ?case by simp
next
  case (3 df df' dfs)
  then obtain rest where rest: "concat_frames (df' # dfs) = Inr rest" "column_types rest = schema"
    by auto
  from 3(3) have "column_types df = column_types rest" using rest(2) by simp
  from concat2_same[OF this] obtain cat where "concat2 df rest = Inr cat" "column_types cat = column_types df"
    by blast
  with rest 3(3) show ?case by simp
qed

lemma find_date_col_fold_Some:
  "fold (\<lambda>(colname, coltype) date_col_name.
            if startswith coltype ''datetime'' then Some colname else date_col_name) cts acc = Some d
   \<Longrightarrow> acc = Some d \<or> (\<exists>ty. (d, ty) \<in> set cts \<and> startswith ty ''datetime'')"
proof (induction cts arbitrary: acc)
  case Nil
  then show ?case by simp
next
  case (Cons ct cts)
  obtain n ty where ct: "ct = (n, ty)" by (cases ct)
  from Cons.prems ct Cons.IH[of "if startswith ty ''datetime'' then Some n else acc"]
  show ?case by (auto split: if_splits)
qed

lemma find_date_col_fold_ex:
  "acc \<noteq> None \<or> (\<exists>(n, ty) \<in> set cts. startswith ty ''datetime'') \<Longrightarrow>
   fold (\<lambda>(colname, coltype) date_col_name.
            if startswith coltype ''datetime'' then Some colname else date_col_name) cts acc \<noteq> None"
proof (induction cts arbitrary: acc)
  case Nil
  then show ?case by simp
next
  case (Cons ct cts)
  obtain n ty where ct: "ct = (n, ty)" by (cases ct)
  let ?acc = "if startswith ty ''datetime'' then Some n else acc"
  have "?acc \<noteq> None \<or> (\<exists>(n, ty) \<in> set cts. startswith ty ''datetime'')"
    using Cons.prems ct by auto
  from Cons.IH[OF this] show ?case using ct by simp
qed

lemma find_date_col_Some:
  "find_date_col cts = Some d \<Longrightarrow> \<exists>ty. (d, ty) \<in> set cts \<and> startswith ty ''datetime''"
  unfolding find_date_col_def by (drule find_date_col_fold_Some) simp

lemma find_date_col_ex:
  "\<exists>(n, ty) \<in> set cts. startswith ty ''datetime'' \<Longrightarrow> \<exists>d. find_date_col cts = Some d"
  unfolding find_date_col_def using find_date_col_fold_ex[of None cts] by auto


lemma column_types_take_rows: "column_types (take_rows df idx) = column_types df"
proof -
  have "dtype_str (col_take idx c) = dtype_str c" for c
    by (cases c; cases "case c of NumCol t xs \<Rightarrow> t | _ \<Rightarrow> Int64") auto
  then show ?thesis by (induction df) (auto simp: take_rows_def column_types_def)
qed

lemma columns_take_rows: "columns (take_rows df idx) = columns df"
  by (simp add: columns_column_types column_types_take_rows)


lemma digest_called_after: "digest_called (snd (digest qs self))"
  unfolding digest_def
  by (auto simp: Let_def split: if_splits option.splits sum.splits)

lemma digest_again:
  "digest_called self \<Longrightarrow> digest qs self = (Inl (Exception ''digest() called again''), self)"
  by (simp add: digest_def)








lemma append_cell_InrD:
  "append_cell c v = Inr c' \<Longrightarrow> col_len c' = col_len c + 1 \<and> dtype_str c' = dtype_str c"
  by (cases c; cases v; cases "case c of NumCol t xs \<Rightarrow> t | _ \<Rightarrow> Int64")
     (auto split: if_splits)





lemma digest_two_snapshots:
  "digest stable_argsort two_snapshots = (Inr two_snapshots_pool, two_snapshots_digested)"
  by code_simp


lemma digest_succeeds:
  assumes nd: "\<not> digest_called self" and fr: "individual_data_frames self = Some dfs"
    and ne: "dfs \<noteq> []" and st: "\<forall>df \<in> set dfs. snapshot_table schema df"
    and ps: "pool_schema schema"
  shows "\<exists>pool. digest qs self =
           (Inr pool, self\<lparr>digest_called := True, pool_entries := Some pool,
                           individual_data_frames := None\<rparr>)"
proof -
  let ?all = "map with_total dfs"
  have tot: "totals_all dfs = Inr ?all"
    using st ps by (intro totals_all_snapshots) (auto simp: pool_schema_def)
  have "?all \<noteq> []" using ne by simp
  moreover have "\<forall>df \<in> set ?all. column_types df = schema"
    using st by (auto simp: column_types_with_total snapshot_table_def)
  ultimately obtain cat where cat: "concat_frames ?all = Inr cat" "column_types cat = schema"
    using concat_frames_same by blast
  from ne obtain df0 where "df0 \<in> set dfs" by (cases dfs) auto
  with st have "distinct (columns df0)" "column_types df0 = schema"
    by (auto simp: snapshot_table_def wf_frame_def)
  then have dist: "distinct (columns cat)" using cat(2) by (simp add: columns_column_types)
  have sw: "startswith ''datetime64[ns]'' ''datetime''" by (simp add: startswith_def)
  from ps obtain d0 where "(d0, ''datetime64[ns]'') \<in> set schema"
    unfolding pool_schema_def list_ex_iff by auto
  with sw have "\<exists>(n, ty) \<in> set (column_types cat). startswith ty ''datetime''"
    unfolding cat(2) by blast
  from find_date_col_ex[OF this] obtain d where d: "find_date_col (column_types cat) = Some d"
    by blast
  from find_date_col_Some[OF d] obtain ty where "(d, ty) \<in> set (column_types cat)"
    "startswith ty ''datetime''" by blast
  then obtain cd where "map_of cat d = Some cd" "startswith (dtype_str cd) ''datetime''"
    using column_types_lookup[OF dist] by blast
  then obtain ts where ts: "map_of cat d = Some (NumCol Datetime64 ts)"
    unfolding startswith_datetime by auto
  let ?srt = "take_rows cat (qs (map sint ts))"
  have srt: "sort_by_timestamp qs cat = Inr ?srt"
    using d ts by (simp add: sort_by_timestamp_def sort_values_def df_get_def nargsort_def)
  have dist': "distinct (columns ?srt)" using dist by (simp add: columns_take_rows)
  from ps have "(''PagedDiff'', ''int64'') \<in> set (column_types ?srt)"
    "(''NonPagedDiff'', ''int64'') \<in> set (column_types ?srt)"
    by (simp_all add: column_types_take_rows cat(2) pool_schema_def)
  then obtain cp cq where
    "map_of ?srt ''PagedDiff'' = Some cp" "dtype_str cp = ''int64''"
    "map_of ?srt ''NonPagedDiff'' = Some cq" "dtype_str cq = ''int64''"
    using column_types_lookup[OF dist'] by blast
  then obtain p q where
    "map_of ?srt ''PagedDiff'' = Some (NumCol Int64 p)"
    "map_of ?srt ''NonPagedDiff'' = Some (NumCol Int64 q)"
    unfolding dtype_int64 by auto
  then have "add_total_diff ?srt = Inr (assign ?srt ''TotalDiff'' (NumCol Int64 (map2 (+) p q)))"
    by (simp add: add_total_diff_def df_get_def)
  with nd fr tot cat(1) srt show ?thesis
    by (simp add: digest_def Let_def)
qed

text \<open>
  Claim C4, as amended. Whatever a first call of \<^verbatim>\<open>digest\<close> did, a call after it raises
  \<^verbatim>\<open>Exception('digest() called again')\<close> and leaves the object as it was. The first call
  returns the pool, and the object keeps it, when at least one table was ingested and
  every ingested table is a snapshot table of one schema fit for consolidation.
\<close>

theorem digest_single_shot:
  "digest qs (snd (digest qs self)) =
     (Inl (Exception ''digest() called again''), snd (digest qs self)) \<and>
   (\<not> digest_called self \<and> individual_data_frames self = Some dfs \<and> dfs \<noteq> [] \<and>
    (\<forall>df \<in> set dfs. snapshot_table schema df) \<and> pool_schema schema \<longrightarrow>
      (\<exists>pool. fst (digest qs self) = Inr pool \<and>
         pool_entries (snd (digest qs self)) = Some pool))"
proof (intro conjI impI)
  show "digest qs (snd (digest qs self)) =
     (Inl (Exception ''digest() called again''), snd (digest qs self))"
    by (rule digest_again) (rule digest_called_after)
next
  assume "\<not> digest_called self \<and> individual_data_frames self = Some dfs \<and> dfs \<noteq> [] \<and>
    (\<forall>df \<in> set dfs. snapshot_table schema df) \<and> pool_schema schema"
  then obtain pool where "digest qs self =
           (Inr pool, self\<lparr>digest_called := True, pool_entries := Some pool,
                           individual_data_frames := None\<rparr>)"
    using digest_succeeds by blast
  then show "\<exists>pool. fst (digest qs self) = Inr pool \<and>
         pool_entries (snd (digest qs self)) = Some pool" by simp
qed

lemma snapshot_table_examples:
  "snapshot_table example_schema snapshot1" "snapshot_table example_schema snapshot2"
  by (simp_all add: snapshot_table_def wf_frame_def columns_def nrows_def column_types_def
      snapshot1_def snapshot2_def example_schema_def)

lemma pool_schema_example: "pool_schema example_schema"
  by (simp add: pool_schema_def example_schema_def)

text \<open>Claim C4, as amended, on the pipeline of the two example snapshots.\<close>

theorem digest_single_shot_witness:
  "\<not> digest_called two_snapshots \<and>
   individual_data_frames two_snapshots = Some [snapshot2, snapshot1] \<and>
   snapshot_table example_schema snapshot2 \<and> snapshot_table example_schema snapshot1 \<and>
   pool_schema example_schema \<and>
   fst (digest stable_argsort two_snapshots) = Inr two_snapshots_pool \<and>
   pool_entries (snd (digest stable_argsort two_snapshots)) = Some two_snapshots_pool \<and>
   digest stable_argsort (snd (digest stable_argsort two_snapshots)) =
     (Inl (Exception ''digest() called again''), two_snapshots_digested)"
proof -
  have h: "\<not> digest_called two_snapshots \<and>
      individual_data_frames two_snapshots = Some [snapshot2, snapshot1] \<and>
      [snapshot2, snapshot1] \<noteq> [] \<and>
      (\<forall>df \<in> set [snapshot2, snapshot1]. snapshot_table example_schema df) \<and>
      pool_schema example_schema"
    by (simp add: two_snapshots_def init_def snapshot_table_examples pool_schema_example)
  from digest_single_shot[of stable_argsort two_snapshots "[snapshot2, snapshot1]" example_schema] h
  obtain pool where
    "digest stable_argsort (snd (digest stable_argsort two_snapshots)) =
       (Inl (Exception ''digest() called again''), snd (digest stable_argsort two_snapshots))"
    "fst (digest stable_argsort two_snapshots) = Inr pool"
    "pool_entries (snd (digest stable_argsort two_snapshots)) = Some pool"
    by blast
  then show ?thesis using h by (simp add: digest_two_snapshots)
qed

text \<open>
  Claim C4 as stated fails on the pipeline into which nothing was ingested: the first
  call of \<^verbatim>\<open>digest\<close> raises the \<^verbatim>\<open>ValueError\<close> of \<^verbatim>\<open>pd.concat([])\<close>.
\<close>

theorem digest_empty_pipeline_fails:
  "fst (digest stable_argsort init) = Inl (ValueError ''No objects to concatenate'')"
  by (simp add: digest_def init_def)




section \<open>Selection: results\<close>

lemma argsort_ok_set: "argsort_ok qs \<Longrightarrow> set (qs ks) = {0..<length ks}"
  unfolding argsort_ok_def by (metis mset_eq_setD set_upt)

lemma argsort_ok_length: "argsort_ok qs \<Longrightarrow> length (qs ks) = length ks"
  unfolding argsort_ok_def by (metis size_mset length_upt diff_zero)

lemma rev_upt_map: "map (\<lambda>j. n - 1 - j) [0..<n] = rev [0..<n]"
  by (rule nth_equalityI) (auto simp: rev_nth)

lemma nargsort_desc_mset:
  assumes "argsort_ok qs"
  shows "mset (nargsort qs False ks) = mset [0..<length ks]"
proof -
  let ?f = "\<lambda>j. length ks - 1 - j"
  have a: "mset (qs (rev ks)) = mset [0..<length ks]"
    using assms unfolding argsort_ok_def by (metis length_rev)
  have "mset (nargsort qs False ks) = image_mset ?f (mset (qs (rev ks)))"
    by (simp only: nargsort_def if_False mset_rev mset_map)
  also have "\<dots> = image_mset ?f (mset [0..<length ks])" by (simp only: a)
  also have "\<dots> = mset (map ?f [0..<length ks])" by (simp only: mset_map)
  also have "\<dots> = mset (rev [0..<length ks])" by (simp only: rev_upt_map)
  also have "\<dots> = mset [0..<length ks]" by (simp only: mset_rev)
  finally show ?thesis .
qed

lemma nargsort_desc_sorted:
  assumes "argsort_ok qs"
  shows "sorted (rev (map ((!) ks) (nargsort qs False ks)))"
proof -
  let ?n = "length ks"
  have s: "sorted (map ((!) (rev ks)) (qs (rev ks)))" using assms by (simp add: argsort_ok_def)
  have "set (qs (rev ks)) = {0..<?n}" using argsort_ok_set[OF assms, of "rev ks"] by simp
  then have "map ((!) (rev ks)) (qs (rev ks)) = map (\<lambda>j. ks ! (?n - 1 - j)) (qs (rev ks))"
    by (auto simp: rev_nth intro!: map_cong)
  with s show ?thesis by (simp add: nargsort_def rev_map comp_def)
qed

lemma nargsort_asc:
  assumes "argsort_ok qs"
  shows "mset (nargsort qs True ks) = mset [0..<length ks]"
    and "sorted (map ((!) ks) (nargsort qs True ks))"
  using assms by (simp_all add: nargsort_def argsort_ok_def)

lemma sorted_perm_unique:
  fixes ks :: "int list"
  assumes "distinct ks" and "mset a = mset [0..<length ks]" and "mset b = mset [0..<length ks]"
    and "sorted (map ((!) ks) a)" and "sorted (map ((!) ks) b)"
  shows "a = b"
proof -
  have "mset (map ((!) ks) a) = mset (map ((!) ks) b)" using assms(2,3) by (metis mset_map)
  with assms(4,5) have eq: "map ((!) ks) a = map ((!) ks) b"
    by (metis properties_for_sort)
  have sa: "set a = {0..<length ks}" and sb: "set b = {0..<length ks}"
    using assms(2,3) by (metis mset_eq_setD set_upt)+
  have "inj_on ((!) ks) {0..<length ks}"
    using assms(1) by (auto simp: inj_on_def nth_eq_iff_index_eq)
  then have "inj_on ((!) ks) (set a \<union> set b)" using sa sb by simp
  with eq show ?thesis by (simp add: inj_on_map_eq_map)
qed

lemma argsort_distinct_unique:
  assumes "argsort_ok qs" and "distinct ks"
  shows "qs ks = stable_argsort ks"
  using assms stable_argsort_ok
  by (intro sorted_perm_unique[of ks]) (simp_all add: argsort_ok_def)

lemma nargsort_distinct_unique:
  assumes "argsort_ok qs" and "distinct ks"
  shows "nargsort qs asc ks = nargsort stable_argsort asc ks"
  using argsort_distinct_unique[OF assms] argsort_distinct_unique[OF assms(1), of "rev ks"] assms(2)
  by (simp add: nargsort_def)

lemma sort_desc_mset:
  assumes "argsort_ok qs"
  shows "mset (sort_desc qs g) = mset g"
proof -
  let ?idx = "nargsort qs False (map (\<lambda>(t, v). sint v) g)"
  have "mset ?idx = mset [0..<length g]" using nargsort_desc_mset[OF assms, of "map (\<lambda>(t, v). sint v) g"]
    by simp
  then have "mset (map ((!) g) ?idx) = mset (map ((!) g) [0..<length g])" by (metis mset_map)
  then show ?thesis by (simp add: sort_desc_def map_nth)
qed

lemma sort_desc_sorted:
  assumes "argsort_ok qs"
  shows "sorted (rev (map (\<lambda>(t, v). sint v) (sort_desc qs g)))"
proof -
  let ?ks = "map (\<lambda>(t, v). sint v) g"
  let ?idx = "nargsort qs False ?ks"
  have "set ?idx = {0..<length g}"
    using nargsort_desc_mset[OF assms, of ?ks] by (metis mset_eq_setD set_upt length_map)
  then have "map (\<lambda>(t, v). sint v) (sort_desc qs g) = map ((!) ?ks) ?idx"
    unfolding sort_desc_def map_map by (intro map_cong) auto
  then show ?thesis using nargsort_desc_sorted[OF assms, of ?ks] by (simp only:)
qed

lemma agg_map:
  assumes "\<And>t vs. (t, vs) \<in> set groups \<Longrightarrow> f vs = Inr (F vs)"
  shows "agg f groups = Inr (map (\<lambda>(t, vs). (t, F vs)) groups)"
  using assms
proof (induction groups)
  case Nil
  then show ?case by simp
next
  case (Cons a groups)
  obtain t vs where a: "a = (t, vs)" by (cases a)
  have "f vs = Inr (F vs)" using Cons.prems[of t vs] a by simp
  moreover have "agg f groups = Inr (map (\<lambda>(t, vs). (t, F vs)) groups)"
  proof (rule Cons.IH)
    fix t vs assume "(t, vs) \<in> set groups"
    then show "f vs = Inr (F vs)" using Cons.prems[of t vs] by simp
  qed
  ultimately show ?case using a by simp
qed

lemma groupby_Tag_groups:
  assumes "(t, vs) \<in> set (groupby_Tag rows)"
  shows "t \<in> fst ` set rows \<and> vs = map snd (filter (\<lambda>(tag, v). tag = t) rows) \<and> vs \<noteq> []"
proof -
  from assms have t: "t \<in> fst ` set rows" and vs: "vs = map snd (filter (\<lambda>(tag, v). tag = t) rows)"
    by (auto simp: groupby_Tag_def)
  from t obtain v where "(t, v) \<in> set rows" by auto
  then have "(t, v) \<in> set (filter (\<lambda>(tag, v). tag = t) rows)" by simp
  then have "filter (\<lambda>(tag, v). tag = t) rows \<noteq> []" by (metis empty_iff list.set(1))
  with t vs show ?thesis by simp
qed

lemma agg_groupby_Tag:
  assumes "\<And>vs. vs \<noteq> [] \<Longrightarrow> f vs = Inr (F vs)"
  shows "agg f (groupby_Tag rows) =
           Inr (map (\<lambda>t. (t, F (map snd (filter (\<lambda>(tag, v). tag = t) rows))))
                  (sort (remdups (map fst rows))))"
proof -
  have "agg f (groupby_Tag rows) = Inr (map (\<lambda>(t, vs). (t, F vs)) (groupby_Tag rows))"
    by (rule agg_map) (use assms groupby_Tag_groups in blast)
  then show ?thesis by (simp add: groupby_Tag_def comp_def)
qed

lemma top_ranked:
  fixes g srt :: "(string \<times> int64) list" and k :: nat
  assumes m: "mset srt = mset g" and d: "distinct (map fst g)"
    and s: "sorted (rev (map (\<lambda>(t, v). sint v) srt))"
    and sc: "\<And>t v. (t, v) \<in> set g \<Longrightarrow> score t = sint v"
  defines "res \<equiv> map fst (take k srt)"
  shows "distinct res" and "set res \<subseteq> fst ` set g" and "length res = min k (length g)"
    and "sorted_wrt (\<lambda>a b. score b \<le> score a) res"
    and "\<forall>t \<in> fst ` set g - set res. \<forall>r \<in> set res. score t \<le> score r"
proof -
  have set_eq: "set srt = set g" using m by (rule mset_eq_setD)
  have len: "length srt = length g" using m by (rule mset_eq_length)
  have "mset (map fst srt) = mset (map fst g)" using m by (metis mset_map)
  then have ds: "distinct (map fst srt)" using d by (metis mset_eq_imp_distinct_iff)
  have split: "map fst srt = map fst (take k srt) @ map fst (drop k srt)"
    by (metis append_take_drop_id map_append)
  show "distinct res" using ds unfolding res_def split by simp
  show "set res \<subseteq> fst ` set g"
    unfolding res_def using set_eq by (auto dest: in_set_takeD)
  show "length res = min k (length g)" unfolding res_def using len by simp
  have sw: "sorted_wrt (\<lambda>x y. sint (snd y) \<le> sint (snd x)) srt"
    using s by (simp add: sorted_wrt_rev sorted_map rev_map[symmetric] case_prod_unfold sorted_wrt_map)
  have key: "score (fst x) = sint (snd x)" if "x \<in> set srt" for x
    using that sc[of "fst x" "snd x"] set_eq by simp
  have "sorted_wrt (\<lambda>x y. sint (snd y) \<le> sint (snd x)) (take k srt)"
    using sw by (metis append_take_drop_id sorted_wrt_append)
  then have "sorted_wrt (\<lambda>x y. score (fst y) \<le> score (fst x)) (take k srt)"
  proof (rule sorted_wrt_mono_rel[rotated])
    fix x y assume "x \<in> set (take k srt)" "y \<in> set (take k srt)" "sint (snd y) \<le> sint (snd x)"
    moreover from this have "x \<in> set srt" "y \<in> set srt" by (auto dest: in_set_takeD)
    ultimately show "score (fst y) \<le> score (fst x)" by (simp add: key)
  qed
  then show "sorted_wrt (\<lambda>a b. score b \<le> score a) res"
    unfolding res_def by (simp add: sorted_wrt_map)
  have cross: "\<forall>x \<in> set (take k srt). \<forall>y \<in> set (drop k srt). sint (snd y) \<le> sint (snd x)"
    using sw by (metis append_take_drop_id sorted_wrt_append)
  show "\<forall>t \<in> fst ` set g - set res. \<forall>r \<in> set res. score t \<le> score r"
  proof (intro ballI)
    fix t r assume t: "t \<in> fst ` set g - set res" and r: "r \<in> set res"
    from r obtain x where x: "x \<in> set (take k srt)" "r = fst x" by (auto simp: res_def)
    from t set_eq obtain y where y: "y \<in> set srt" "t = fst y" by auto
    have "y \<notin> set (take k srt)" using t y by (auto simp: res_def)
    with y have "y \<in> set (drop k srt)" by (metis Un_iff append_take_drop_id set_append)
    with cross x have "sint (snd y) \<le> sint (snd x)" by blast
    moreover have "x \<in> set srt" using x by (auto dest: in_set_takeD)
    ultimately show "score t \<le> score r" using key x y by simp
  qed
qed

lemma sint_smax: "sint (smax a b) = max (sint a) (sint b)"
  by (simp add: smax_def max_def)

lemma sint_fold_smax: "sint (fold (\<lambda>x m. smax m x) vs v) = Max (set (map sint (v # vs)))"
proof -
  have "sint (fold (\<lambda>x m. smax m x) vs v) = fold max (map sint vs) (sint v)"
    by (induction vs arbitrary: v) (simp_all add: sint_smax max.commute)
  also have "\<dots> = Max (set (sint v # map sint vs))" by (simp only: Max.set_eq_fold)
  finally show ?thesis by simp
qed

lemma group_max_nonempty:
  "vs \<noteq> [] \<Longrightarrow> group_max vs = Inr (fold (\<lambda>x m. smax m x) (tl vs) (hd vs))"
  by (cases vs) simp_all

lemma sint_group_max:
  assumes "vs \<noteq> []"
  shows "sint (fold (\<lambda>x m. smax m x) (tl vs) (hd vs)) = Max (set (map sint vs))"
proof (cases vs)
  case Nil
  then show ?thesis using assms by simp
next
  case (Cons v vs')
  then show ?thesis using sint_fold_smax[of vs' v] by simp
qed


lemma selection_core:
  fixes F :: "int64 list \<Rightarrow> int64" and ign :: "string list"
    and tags :: "string list" and vals :: "int64 list"
  assumes ok: "argsort_ok qs"
    and f: "\<And>vs. vs \<noteq> [] \<Longrightarrow> f vs = Inr (F vs)"
    and len: "length vals = length tags" and n: "0 \<le> n"
  defines "rows \<equiv> filter (\<lambda>(tag, v). tag \<notin> set ign) (zip tags vals)"
    and "E \<equiv> filter (\<lambda>t. t \<notin> set ign) (remdups tags)"
  assumes sc0: "\<And>t. t \<in> set tags \<Longrightarrow> score t = sint (F (tag_values tags vals t))"
  shows "\<exists>g. agg f (groupby_Tag rows) = Inr g \<and>
           distinct (map fst (head n (sort_desc qs g))) \<and>
           set (map fst (head n (sort_desc qs g))) \<subseteq> set E \<and>
           length (map fst (head n (sort_desc qs g))) = min (nat n) (length E) \<and>
           sorted_wrt (\<lambda>a b. score b \<le> score a) (map fst (head n (sort_desc qs g))) \<and>
           (\<forall>t \<in> set E - set (map fst (head n (sort_desc qs g))).
              \<forall>r \<in> set (map fst (head n (sort_desc qs g))). score t \<le> score r)"
proof -
  let ?vals = "\<lambda>t. map snd (filter (\<lambda>(tag, v). tag = t) rows)"
  let ?g = "map (\<lambda>t. (t, F (?vals t))) (sort (remdups (map fst rows)))"
  have agg: "agg f (groupby_Tag rows) = Inr ?g" using f by (rule agg_groupby_Tag)
  have fst_rows: "map fst rows = filter (\<lambda>t. t \<notin> set ign) tags"
  proof -
    have "map fst rows = filter (\<lambda>t. t \<notin> set ign) (map fst (zip tags vals))"
      unfolding rows_def filter_map by (simp add: comp_def case_prod_unfold)
    then show ?thesis using len by simp
  qed
  have keys: "map fst ?g = sort (remdups (map fst rows))" by (simp add: comp_def)
  have d: "distinct (map fst ?g)" unfolding keys by simp
  have setg: "fst ` set ?g = set E"
    using keys fst_rows by (metis (no_types, lifting) E_def list.set_map remdups_filter set_remdups set_sort)
  have leng: "length ?g = length E"
    unfolding E_def using fst_rows by (simp add: remdups_filter)
  have sc: "score t = sint v" if "(t, v) \<in> set ?g" for t v
  proof -
    from that have v: "v = F (?vals t)" and t: "t \<in> set (map fst rows)" by auto
    from t have "t \<notin> set ign" unfolding fst_rows by simp
    then have "filter (\<lambda>(tag, v). tag = t) rows = filter (\<lambda>(tag, v). tag = t) (zip tags vals)"
      unfolding rows_def by (auto intro!: filter_cong)
    moreover have "t \<in> set tags" using t unfolding fst_rows by simp
    ultimately show ?thesis using v sc0[of t] by (simp add: tag_values_def)
  qed
  have hd: "head n (sort_desc qs ?g) = take (nat n) (sort_desc qs ?g)" using n by (simp add: head_def)
  note tr = top_ranked[OF sort_desc_mset[OF ok] d sort_desc_sorted[OF ok], of score "nat n", OF sc]
  let ?res = "map fst (take (nat n) (sort_desc qs ?g))"
  have 1: "distinct ?res" by (rule tr(1))
  have 2: "set ?res \<subseteq> set E" unfolding setg[symmetric] by (rule tr(2))
  have 3: "length ?res = min (nat n) (length E)" using tr(3) leng by (simp only:)
  have 4: "sorted_wrt (\<lambda>a b. score b \<le> score a) ?res" by (rule tr(4))
  have 5: "\<forall>t \<in> set E - set ?res. \<forall>r \<in> set ?res. score t \<le> score r"
    using tr(5) unfolding setg .
  show ?thesis by (rule exI[of _ ?g]) (unfold hd, intro conjI agg 1 2 3 4 5)
qed

lemma reduce_df_int64:
  assumes "df_get pool ''Tag'' = Inr (ObjCol tags)" and "df_get pool by_col = Inr (NumCol Int64 vals)"
  shows "reduce_df pool by_col ign = Inr (filter (\<lambda>(tag, v). tag \<notin> set ign) (zip tags vals))"
  using assms by (simp add: reduce_df_def)

lemma reduce_df_set_cong:
  "set ign = set ign' \<Longrightarrow> reduce_df pool by_col ign = reduce_df pool by_col ign'"
  by (auto simp: reduce_df_def split: sum.splits column.splits)

lemma append_TOTAL_eq:
  "append_TOTAL dflt h a =
     (ignored dflt h a @ [''TOTAL''],
      case a of NotAList \<Rightarrow> h | Omitted \<Rightarrow> h(dflt := h dflt @ [''TOTAL''])
              | ListObj r \<Rightarrow> h(r := h r @ [''TOTAL'']))"
  by (cases a) (simp_all add: append_TOTAL_def ignored_def)

lemma eligible_eq:
  "filter (\<lambda>t. t \<notin> set (ign @ [''TOTAL''])) (remdups tags) = eligible tags ign"
  by (auto simp: eligible_def intro: filter_cong)

lemma tag_values_nonempty:
  assumes "t \<in> set tags" and "length vals = length tags"
  shows "tag_values tags vals t \<noteq> []"
proof -
  from assms obtain i where i: "i < length tags" "tags ! i = t" by (auto simp: in_set_conv_nth)
  with assms(2) have "(t, vals ! i) \<in> set (zip tags vals)"
    by (auto simp: set_zip)
  then have "(t, vals ! i) \<in> set (filter (\<lambda>(tag, v). tag = t) (zip tags vals))" by simp
  then show ?thesis unfolding tag_values_def by (metis empty_iff list.set(1) map_is_Nil_conv)
qed

lemma highest_tags_of_ranked:
  assumes ok: "argsort_ok qs"
    and tg: "df_get pool ''Tag'' = Inr (ObjCol tags)"
    and bc: "df_get pool by_col = Inr (NumCol Int64 vals)"
    and len: "length vals = length tags" and n: "0 \<le> n_tags"
  shows "\<exists>res. highest_tags_of qs pool n_tags by_col (ign @ [''TOTAL'']) = Inr res \<and>
           distinct res \<and> set res \<subseteq> set (eligible tags ign) \<and>
           length res = min (nat n_tags) (length (eligible tags ign)) \<and>
           sorted_wrt (\<lambda>a b. peak tags vals b \<le> peak tags vals a) res \<and>
           (\<forall>t \<in> set (eligible tags ign) - set res. \<forall>r \<in> set res.
              peak tags vals t \<le> peak tags vals r)"
proof -
  have sc: "peak tags vals t = sint (fold (\<lambda>x m. smax m x) (tl (tag_values tags vals t))
              (hd (tag_values tags vals t)))" if "t \<in> set tags" for t
    using sint_group_max[OF tag_values_nonempty[OF that len]] by (simp add: peak_def)
  have "\<exists>g. agg group_max (groupby_Tag (filter (\<lambda>(tag, v). tag \<notin> set (ign @ [''TOTAL'']))
               (zip tags vals))) = Inr g \<and>
           distinct (map fst (head n_tags (sort_desc qs g))) \<and>
           set (map fst (head n_tags (sort_desc qs g)))
             \<subseteq> set (filter (\<lambda>t. t \<notin> set (ign @ [''TOTAL''])) (remdups tags)) \<and>
           length (map fst (head n_tags (sort_desc qs g))) =
             min (nat n_tags) (length (filter (\<lambda>t. t \<notin> set (ign @ [''TOTAL''])) (remdups tags))) \<and>
           sorted_wrt (\<lambda>a b. peak tags vals b \<le> peak tags vals a)
             (map fst (head n_tags (sort_desc qs g))) \<and>
           (\<forall>t \<in> set (filter (\<lambda>t. t \<notin> set (ign @ [''TOTAL''])) (remdups tags))
                   - set (map fst (head n_tags (sort_desc qs g))).
              \<forall>r \<in> set (map fst (head n_tags (sort_desc qs g))).
                 peak tags vals t \<le> peak tags vals r)"
  proof (rule selection_core[where F = "\<lambda>vs. fold (\<lambda>x m. smax m x) (tl vs) (hd vs)",
        OF ok _ len n])
    show "\<And>vs. vs \<noteq> [] \<Longrightarrow> group_max vs = Inr (fold (\<lambda>x m. smax m x) (tl vs) (hd vs))"
      by (rule group_max_nonempty)
    show "\<And>t. t \<in> set tags \<Longrightarrow> peak tags vals t =
        sint (fold (\<lambda>x m. smax m x) (tl (tag_values tags vals t)) (hd (tag_values tags vals t)))"
      by (rule sc)
  qed
  then obtain g where g: "agg group_max (groupby_Tag (filter (\<lambda>(tag, v). tag \<notin> set (ign @ [''TOTAL'']))
               (zip tags vals))) = Inr g"
    and r: "distinct (map fst (head n_tags (sort_desc qs g)))"
      "set (map fst (head n_tags (sort_desc qs g))) \<subseteq> set (eligible tags ign)"
      "length (map fst (head n_tags (sort_desc qs g))) = min (nat n_tags) (length (eligible tags ign))"
      "sorted_wrt (\<lambda>a b. peak tags vals b \<le> peak tags vals a) (map fst (head n_tags (sort_desc qs g)))"
      "\<forall>t \<in> set (eligible tags ign) - set (map fst (head n_tags (sort_desc qs g))).
         \<forall>r \<in> set (map fst (head n_tags (sort_desc qs g))). peak tags vals t \<le> peak tags vals r"
    unfolding eligible_eq by blast
  have "highest_tags_of qs pool n_tags by_col (ign @ [''TOTAL'']) =
          Inr (map fst (head n_tags (sort_desc qs g)))"
    unfolding highest_tags_of_def reduce_df_int64[OF tg bc] using g by simp
  with r show ?thesis by blast
qed



lemma sort_desc_distinct:
  assumes "argsort_ok qs" and "distinct (map (\<lambda>(t, v). sint v) g)"
  shows "sort_desc qs g = sort_desc stable_argsort g"
  using nargsort_distinct_unique[OF assms] by (simp add: sort_desc_def)

lemma highest_tags_of_set_cong:
  "set ign = set ign' \<Longrightarrow>
   highest_tags_of qs pool n by_col ign = highest_tags_of qs pool n by_col ign'"
  unfolding highest_tags_of_def by (simp add: reduce_df_set_cong[of ign ign'])

lemma most_changed_tags_of_set_cong:
  "set ign = set ign' \<Longrightarrow>
   most_changed_tags_of qs pool n by_col ign = most_changed_tags_of qs pool n by_col ign'"
  unfolding most_changed_tags_of_def by (simp add: reduce_df_set_cong[of ign ign'])

lemma highest_example:
  assumes "argsort_ok qs"
  shows "highest_tags_of qs two_snapshots_pool 2 ''TotalUsedBytes'' [''TOTAL''] = Inr [''B'', ''A'']"
proof -
  have m: "(case reduce_df two_snapshots_pool ''TotalUsedBytes'' [''TOTAL''] of
             Inl e \<Rightarrow> Inl e | Inr reduced_df \<Rightarrow> agg group_max (groupby_Tag reduced_df)) =
           Inr [(''A'', 500), (''B'', 900), (''C'', 300)]"
    by code_simp
  have "distinct (map (\<lambda>(t, v). sint v) [(''A'', 500 :: int64), (''B'', 900), (''C'', 300)])"
    by simp
  from sort_desc_distinct[OF assms this]
  have s: "sort_desc qs [(''A'', 500), (''B'', 900), (''C'', 300)] =
           sort_desc stable_argsort [(''A'', 500), (''B'', 900), (''C'', 300)]" .
  have e: "map fst (head 2 (sort_desc stable_argsort [(''A'', 500), (''B'', 900), (''C'', 300)])) =
           [''B'', ''A'']"
    by code_simp
  show ?thesis
    using m unfolding highest_tags_of_def by (auto split: sum.splits simp: s e)
qed


lemma fst_get_highest_tags:
  "pool_entries self = Some pool \<Longrightarrow>
   fst (get_highest_tags qs self h n_tags by_col a) =
     highest_tags_of qs pool n_tags by_col (ignored HighestDefault h a @ [''TOTAL''])"
  by (simp add: get_highest_tags_def append_TOTAL_eq)


text \<open>
  Claim C7. On a pool with a text \<^verbatim>\<open>Tag\<close> column and an \<^verbatim>\<open>int64\<close> column \<^verbatim>\<open>by_col\<close>,
  and for \<open>n_tags \<ge> 0\<close>, \<^verbatim>\<open>get_highest_tags\<close> returns distinct tags, none of them in
  \<^verbatim>\<open>ignore_tags\<close> or \<^verbatim>\<open>TOTAL\<close>; it returns \<open>n_tags\<close> of them, or all the tags left when
  there are fewer; they are in descending order of the maximum of \<^verbatim>\<open>by_col\<close> over the
  rows of the tag; and no tag left out has a higher maximum than a tag returned. On the
  pool of the two example snapshots, where A, B, C and TOTAL peak at 500, 900, 300
  and 1700, \<^verbatim>\<open>get_highest_tags(2, "TotalUsedBytes")\<close> returns B, A, after any number of
  earlier calls with the default \<^verbatim>\<open>ignore_tags\<close>.
\<close>

theorem get_highest_tags_ranked:
  assumes "argsort_ok qs"
  shows "(pool_entries self = Some pool \<and> df_get pool ''Tag'' = Inr (ObjCol tags) \<and>
          df_get pool by_col = Inr (NumCol Int64 vals) \<and> length vals = length tags \<and>
          0 \<le> n_tags \<longrightarrow>
          (\<exists>res. fst (get_highest_tags qs self h n_tags by_col ignore_tags) = Inr res \<and>
             distinct res \<and>
             set res \<subseteq> set (eligible tags (ignored HighestDefault h ignore_tags)) \<and>
             length res =
               min (nat n_tags) (length (eligible tags (ignored HighestDefault h ignore_tags))) \<and>
             sorted_wrt (\<lambda>a b. peak tags vals b \<le> peak tags vals a) res \<and>
             (\<forall>t \<in> set (eligible tags (ignored HighestDefault h ignore_tags)) - set res.
                \<forall>r \<in> set res. peak tags vals t \<le> peak tags vals r))) \<and>
         (h HighestDefault = replicate k ''TOTAL'' \<longrightarrow>
          fst (get_highest_tags qs two_snapshots_digested h 2 ''TotalUsedBytes'' Omitted) =
            Inr [''B'', ''A''])"
proof (intro conjI impI)
  assume a: "pool_entries self = Some pool \<and> df_get pool ''Tag'' = Inr (ObjCol tags) \<and>
          df_get pool by_col = Inr (NumCol Int64 vals) \<and> length vals = length tags \<and>
          0 \<le> n_tags"
  then have p: "pool_entries self = Some pool" by simp
  from a highest_tags_of_ranked[OF assms, of pool tags by_col vals n_tags
      "ignored HighestDefault h ignore_tags"]
  show "\<exists>res. fst (get_highest_tags qs self h n_tags by_col ignore_tags) = Inr res \<and>
             distinct res \<and>
             set res \<subseteq> set (eligible tags (ignored HighestDefault h ignore_tags)) \<and>
             length res =
               min (nat n_tags) (length (eligible tags (ignored HighestDefault h ignore_tags))) \<and>
             sorted_wrt (\<lambda>a b. peak tags vals b \<le> peak tags vals a) res \<and>
             (\<forall>t \<in> set (eligible tags (ignored HighestDefault h ignore_tags)) - set res.
                \<forall>r \<in> set res. peak tags vals t \<le> peak tags vals r)"
    unfolding fst_get_highest_tags[OF p] by simp
next
  assume k: "h HighestDefault = replicate k ''TOTAL''"
  have "set (ignored HighestDefault h Omitted @ [''TOTAL'']) = set [''TOTAL'']"
    using k by (auto simp: ignored_def)
  from highest_tags_of_set_cong[OF this]
  have c: "highest_tags_of qs two_snapshots_pool 2 ''TotalUsedBytes''
             (ignored HighestDefault h Omitted @ [''TOTAL'']) =
           highest_tags_of qs two_snapshots_pool 2 ''TotalUsedBytes'' [''TOTAL'']" .
  have p: "pool_entries two_snapshots_digested = Some two_snapshots_pool"
    by (simp add: two_snapshots_digested_def)
  show "fst (get_highest_tags qs two_snapshots_digested h 2 ''TotalUsedBytes'' Omitted) =
          Inr [''B'', ''A'']"
    unfolding fst_get_highest_tags[OF p] c by (rule highest_example[OF assms])
qed

text \<open>Claim C7 on the pool of the two example snapshots: the top two, and with a
  caller's empty list and \<open>n_tags = 5\<close> the three tags there are.\<close>

theorem get_highest_tags_ranked_witness:
  "argsort_ok stable_argsort \<and>
   pool_entries two_snapshots_digested = Some two_snapshots_pool \<and>
   df_get two_snapshots_pool ''Tag'' =
     Inr (ObjCol [''A'', ''B'', ''C'', ''TOTAL'', ''A'', ''B'', ''C'', ''TOTAL'']) \<and>
   df_get two_snapshots_pool ''TotalUsedBytes'' =
     Inr (NumCol Int64 [100, 200, 300, 600, 500, 900, 300, 1700]) \<and>
   fst (get_highest_tags stable_argsort two_snapshots_digested (\<lambda>r. []) 2 ''TotalUsedBytes'' Omitted) =
     Inr [''B'', ''A''] \<and>
   (\<exists>res. fst (get_highest_tags stable_argsort two_snapshots_digested (\<lambda>r. []) 5
                  ''TotalUsedBytes'' (ListObj (Obj 0))) = Inr res \<and>
      length res = 3 \<and> set res = {''A'', ''B'', ''C''})"
proof -
  let ?tags = "[''A'', ''B'', ''C'', ''TOTAL'', ''A'', ''B'', ''C'', ''TOTAL'']"
  let ?vals = "[100, 200, 300, 600, 500, 900, 300, 1700] :: int64 list"
  have h: "pool_entries two_snapshots_digested = Some two_snapshots_pool"
    "df_get two_snapshots_pool ''Tag'' = Inr (ObjCol ?tags)"
    "df_get two_snapshots_pool ''TotalUsedBytes'' = Inr (NumCol Int64 ?vals)"
    by (simp_all add: two_snapshots_digested_def two_snapshots_pool_def df_get_def)
  note t = get_highest_tags_ranked[OF stable_argsort_ok, of two_snapshots_digested
      two_snapshots_pool ?tags "''TotalUsedBytes''" ?vals _ "\<lambda>r. []" _ 0]
  have e: "eligible ?tags (ignored HighestDefault (\<lambda>r. []) (ListObj (Obj 0))) = [''A'', ''B'', ''C'']"
    by (simp add: eligible_def ignored_def)
  from t[of 2 Omitted] have 1:
    "fst (get_highest_tags stable_argsort two_snapshots_digested (\<lambda>r. []) 2 ''TotalUsedBytes'' Omitted) =
     Inr [''B'', ''A'']" by simp
  from t[of 5 "ListObj (Obj 0)"] h obtain res where
    r: "fst (get_highest_tags stable_argsort two_snapshots_digested (\<lambda>r. []) 5
                  ''TotalUsedBytes'' (ListObj (Obj 0))) = Inr res"
      "distinct res" "set res \<subseteq> set [''A'', ''B'', ''C'']" "length res = min (nat 5) 3"
    unfolding e by auto
  have "card (set res) = 3" using r(2,4) by (simp add: distinct_card)
  moreover have "card {''A'', ''B'', ''C''} = 3" by simp
  ultimately have "card (set res) = card {''A'', ''B'', ''C''}" by simp
  with r(3) have "set res = {''A'', ''B'', ''C''}"
    by (intro card_subset_eq) simp_all
  with r(1,4) h 1 stable_argsort_ok show ?thesis by simp
qed



text \<open>
  Claim C5. On the pipeline of the two example snapshots, ingested and not yet digested,
  \<^verbatim>\<open>get_highest_tags\<close> and \<^verbatim>\<open>get_most_changed_tags\<close> raise \<^verbatim>\<open>TypeError\<close>: they subscript
  \<^verbatim>\<open>self.pool_entries\<close>, which is still \<^verbatim>\<open>None\<close>, and never call \<^verbatim>\<open>digest\<close>. On the same
  pipeline \<^verbatim>\<open>get_df\<close> and \<^verbatim>\<open>get_all_tags\<close> digest first and return the pool and its tags.
\<close>

theorem selection_does_not_digest:
  "fst (get_highest_tags qs two_snapshots h 2 ''TotalUsedBytes'' ignore_tags) =
     Inl (TypeError ''NoneType object is not subscriptable'') \<and>
   fst (get_most_changed_tags qs two_snapshots h 2 ''TotalUsedBytes'' ignore_tags) =
     Inl (TypeError ''NoneType object is not subscriptable'') \<and>
   fst (get_df stable_argsort two_snapshots) = Inr (Some two_snapshots_pool) \<and>
   fst (get_all_tags stable_argsort two_snapshots) =
     Inr [StrV ''A'', StrV ''B'', StrV ''C'', StrV ''TOTAL'']"
proof -
  have "pool_entries two_snapshots = None" by (simp add: two_snapshots_def init_def)
  then have "fst (get_highest_tags qs two_snapshots h 2 ''TotalUsedBytes'' ignore_tags) =
     Inl (TypeError ''NoneType object is not subscriptable'')"
    "fst (get_most_changed_tags qs two_snapshots h 2 ''TotalUsedBytes'' ignore_tags) =
     Inl (TypeError ''NoneType object is not subscriptable'')"
    by (simp_all add: get_highest_tags_def get_most_changed_tags_def split: prod.splits)
  moreover have "\<not> digest_called two_snapshots" by (simp add: two_snapshots_def init_def)
  then have "fst (get_df stable_argsort two_snapshots) = Inr (Some two_snapshots_pool)"
    "fst (get_all_tags stable_argsort two_snapshots) =
     Inr [StrV ''A'', StrV ''B'', StrV ''C'', StrV ''TOTAL'']"
    by (simp_all add: get_df_def get_all_tags_def digest_two_snapshots two_snapshots_digested_def
        all_tags_of_def two_snapshots_pool_def df_get_def unique_def)
  ultimately show ?thesis by simp
qed

text \<open>
  Claim C10. Both methods append \<^verbatim>\<open>TOTAL\<close> to the list object they are given: after the
  call the caller's list object \<open>r\<close> holds one element more, and nothing else in the store
  has changed. With \<^verbatim>\<open>ignore_tags\<close> omitted the list appended to is the method's own
  default object, so that a second call, on any object and with any arguments, finds
  the first call's \<^verbatim>\<open>TOTAL\<close> there and adds another.
\<close>

theorem ignore_tags_mutated:
  "snd (get_highest_tags qs self h n by_col (ListObj r)) = h(r := h r @ [''TOTAL'']) \<and>
   snd (get_most_changed_tags qs self h n by_col (ListObj r)) = h(r := h r @ [''TOTAL'']) \<and>
   snd (get_highest_tags qs self h n by_col Omitted) =
     h(HighestDefault := h HighestDefault @ [''TOTAL'']) \<and>
   snd (get_most_changed_tags qs self h n by_col Omitted) =
     h(ChangedDefault := h ChangedDefault @ [''TOTAL'']) \<and>
   snd (get_highest_tags qs' self' (snd (get_highest_tags qs self h n by_col Omitted))
          n' by_col' Omitted) HighestDefault =
     h HighestDefault @ [''TOTAL'', ''TOTAL''] \<and>
   snd (get_most_changed_tags qs' self' (snd (get_most_changed_tags qs self h n by_col Omitted))
          n' by_col' Omitted) ChangedDefault =
     h ChangedDefault @ [''TOTAL'', ''TOTAL'']"
  by (simp add: get_highest_tags_def get_most_changed_tags_def append_TOTAL_def)

text \<open>Claim C10 on a caller's list holding A, and on two calls with the default on
  different pools.\<close>

theorem ignore_tags_mutated_witness:
  "snd (get_highest_tags stable_argsort two_snapshots_digested ((\<lambda>r. [])(Obj 0 := [''A'']))
          2 ''TotalUsedBytes'' (ListObj (Obj 0))) (Obj 0) = [''A'', ''TOTAL''] \<and>
   snd (get_most_changed_tags stable_argsort two_snapshots_digested ((\<lambda>r. [])(Obj 0 := [''A'']))
          2 ''TotalUsedBytes'' (ListObj (Obj 0))) (Obj 0) = [''A'', ''TOTAL''] \<and>
   snd (get_highest_tags stable_argsort changes_digested
          (snd (get_highest_tags stable_argsort two_snapshots_digested (\<lambda>r. [])
                  2 ''TotalUsedBytes'' Omitted))
          1 ''PagedDiff'' Omitted) HighestDefault = [''TOTAL'', ''TOTAL'']"
proof -
  note a = ignore_tags_mutated[where qs = stable_argsort and self = two_snapshots_digested
      and h = "(\<lambda>r. [])(Obj 0 := [''A''])" and n = 2 and by_col = "''TotalUsedBytes''"
      and r = "Obj 0" and qs' = stable_argsort and self' = changes_digested and n' = 1
      and by_col' = "''PagedDiff''"]
  note b = ignore_tags_mutated[where qs = stable_argsort and self = two_snapshots_digested
      and h = "\<lambda>r. []" and n = 2 and by_col = "''TotalUsedBytes''"
      and r = "Obj 0" and qs' = stable_argsort and self' = changes_digested and n' = 1
      and by_col' = "''PagedDiff''"]
  have 1: "snd (get_highest_tags stable_argsort two_snapshots_digested ((\<lambda>r. [])(Obj 0 := [''A'']))
          2 ''TotalUsedBytes'' (ListObj (Obj 0))) (Obj 0) = [''A'', ''TOTAL'']"
    by (simp add: a[THEN conjunct1])
  have 2: "snd (get_most_changed_tags stable_argsort two_snapshots_digested ((\<lambda>r. [])(Obj 0 := [''A'']))
          2 ''TotalUsedBytes'' (ListObj (Obj 0))) (Obj 0) = [''A'', ''TOTAL'']"
    by (simp add: a[THEN conjunct2, THEN conjunct1])
  have 3: "snd (get_highest_tags stable_argsort changes_digested
          (snd (get_highest_tags stable_argsort two_snapshots_digested (\<lambda>r. [])
                  2 ''TotalUsedBytes'' Omitted))
          1 ''PagedDiff'' Omitted) HighestDefault = [''TOTAL'', ''TOTAL'']"
    using b[THEN conjunct2, THEN conjunct2, THEN conjunct2, THEN conjunct2, THEN conjunct1]
    by simp
  from 1 2 3 show ?thesis by (intro conjI)
qed

section \<open>Reporting: results\<close>

text \<open>
  Claim C9. When \<^verbatim>\<open>timestamp_tag\<close> is neither \<^verbatim>\<open>DateTime\<close> nor \<^verbatim>\<open>DateTimeUTC\<close>, or \<^verbatim>\<open>by_col\<close>
  is not one of the six recognized columns, \<^verbatim>\<open>do_plot\<close> raises an exception and leaves
  everything as it was: the object is not digested, no list object is touched and no
  call is made to the rendering collaborator.
\<close>

theorem do_plot_validates_first:
  assumes "timestamp_tag \<notin> {''DateTime'', ''DateTimeUTC''} \<or> by_col \<notin> set valid_cols"
  shows "do_plot qs w by_col timestamp_tag ignore_tags include_tags rcparams n_most_changed n_highest =
           (Inl (Exception (if timestamp_tag \<notin> {''DateTime'', ''DateTimeUTC''}
                            then ''Invalid timestamp tag'' else ''Invalid column name'')), w)"
  using assms by (auto simp: do_plot_def)

text \<open>Claim C9 on the column \<^verbatim>\<open>Bogus\<close> and the undigested pipeline of the two example
  snapshots; with \<^verbatim>\<open>TotalDiff\<close> the same call digests and makes one rendering call.\<close>

theorem do_plot_validates_first_witness:
  "''Bogus'' \<notin> set valid_cols \<and>
   do_plot stable_argsort fresh_world ''Bogus'' ''DateTimeUTC'' None None None 5 5 =
     (Inl (Exception ''Invalid column name''), fresh_world) \<and>
   \<not> digest_called (pe fresh_world) \<and> rendered fresh_world = [] \<and>
   digest_called (pe (snd (do_plot stable_argsort fresh_world ''TotalDiff'' ''DateTimeUTC''
                             None None None 5 5))) \<and>
   length (rendered (snd (do_plot stable_argsort fresh_world ''TotalDiff'' ''DateTimeUTC''
                             None None None 5 5))) = 1"
proof -
  have b: "''Bogus'' \<notin> set valid_cols" by (simp add: valid_cols_def)
  then have h: "''DateTimeUTC'' \<notin> {''DateTime'', ''DateTimeUTC''} \<or> ''Bogus'' \<notin> set valid_cols"
    by simp
  have v: "digest_called (pe (snd (do_plot stable_argsort fresh_world ''TotalDiff'' ''DateTimeUTC''
                             None None None 5 5)))"
    "length (rendered (snd (do_plot stable_argsort fresh_world ''TotalDiff'' ''DateTimeUTC''
                             None None None 5 5))) = 1"
    by code_simp+
  have f: "\<not> digest_called (pe fresh_world)" "rendered fresh_world = []"
    by (simp_all add: fresh_world_def two_snapshots_def init_def)
  from do_plot_validates_first[OF h, of stable_argsort fresh_world None None None 5 5] b v f
  show ?thesis by simp
qed

end
